theory Spec2Isabelle
  imports Complex_Main
begin

section \<open>The wire protocol (types.ts)\<close>

text \<open>
  A \<open>WSMessage\<close> is \<open>{type: MessageType, data: Record<string, unknown>}\<close>. Each constructor
  below is one value of the enum \<open>MessageType\<close> together with the fields of \<open>data\<close> that the
  handlers read, at the types the handlers cast them to. The fields that the code tests for
  truthiness before use are optional: \<open>cost\<close> (missing, \<open>null\<close> or a JSON number, a finite
  double, taken as the rational it denotes) and \<open>session_id\<close>. A tool input is an opaque JSON
  object, kept as its text. The strings that end up in the transcript are JavaScript
  strings (\<open>js_string\<close>); of the other strings the code only tests equality and emptiness,
  and they are kept as plain strings. \<open>UNKNOWN t\<close> is a message whose \<open>type\<close> is a string \<open>t\<close> outside
  the enum: the declared type has no such value, but \<open>JSON.parse\<close> can return one, and the
  \<open>switch\<close> statements send it to their \<open>default\<close>.
\<close>

type_synonym json = string

text \<open>
  A JavaScript string is a sequence of UTF-16 code units. \<open>ascii\<close> gives the string of a
  literal of the source that has ASCII characters only.
\<close>

type_synonym js_string = "nat list"

definition ascii :: "string \<Rightarrow> js_string" where
  "ascii s = map of_char s"

datatype ws_message =
    USER_MESSAGE js_string "string list option"
  | APPROVAL_RESPONSE bool "string option"
  | INTERRUPT
  | CLEAR_SESSION
  | ASSISTANT_TEXT js_string
  | THINKING js_string
  | TOOL_USE string string json
  | TOOL_RESULT string string bool
  | APPROVAL_REQUEST string json
  | RESULT "rat option"
  | ERROR js_string
  | STATUS string "string option"
  | HISTORY "ws_message list"
  | UNKNOWN string

datatype tool_status = S_running | S_completed | S_error

record tool_call =
  tc_id :: string
  tc_name :: string
  tc_input :: json
  tc_status :: tool_status
  tc_result :: "string option"
  tc_isError :: "bool option"

datatype role = R_user | R_assistant | R_tool | R_system | R_thinking

text \<open>
  A \<open>ChatMessage\<close>. Its \<open>id\<close> (a fresh \<open>crypto.randomUUID()\<close>) and its \<open>timestamp\<close> (the
  clock) are not part of the model: no handler reads them, and they differ between any two
  runs. \<open>toolCalls\<close> is \<open>None\<close> where the source leaves the field undefined.
\<close>

record chat_message =
  role :: role
  content :: js_string
  toolCalls :: "tool_call list option"

record approval_request =
  toolName :: string
  toolInput :: json

datatype connection_status = C_connecting | C_connected | C_disconnected | C_error

datatype agent_status = A_idle | A_thinking | A_done | A_error | A_interrupted

datatype ready_state = CONNECTING | OPEN | CLOSING | CLOSED

text \<open>A callback handed to \<open>setTimeout\<close>, with its delay in milliseconds.\<close>

datatype timer = SetAgentStatus nat agent_status

section \<open>The client state (App.tsx, hooks/useWebSocket.ts)\<close>

text \<open>
  The first four fields are the \<open>useState\<close> cells of \<open>App\<close>, the next three those of
  \<open>useWebSocket\<close>. \<open>wsRef\<close> is the ready state of the socket in \<open>wsRef.current\<close> (\<open>None\<close>
  when the ref is null), \<open>localStorage_session\<close> the stored session id, \<open>timers\<close> the pending
  \<open>setTimeout\<close> callbacks in the order they were scheduled, \<open>console_errors\<close> the number of
  \<open>console.error\<close> calls, and \<open>sent\<close> the frames handed to \<open>ws.send\<close>. State updates take effect
  as the section on \<open>handleMessage\<close> describes.
\<close>

record client =
  messages :: "chat_message list"
  pendingApproval :: "approval_request option"
  currentAssistantMessage :: js_string
  currentToolCalls :: "tool_call list"
  connectionStatus :: connection_status
  agentStatus :: agent_status
  sessionId :: "string option"
  wsRef :: "ready_state option"
  localStorage_session :: "string option"
  timers :: "timer list"
  console_errors :: nat
  sent :: "ws_message list"

definition initial_client :: client where
  "initial_client =
     \<lparr>messages = [], pendingApproval = None, currentAssistantMessage = [],
      currentToolCalls = [], connectionStatus = C_disconnected, agentStatus = A_idle,
      sessionId = None, wsRef = None, localStorage_session = None, timers = [],
      console_errors = 0, sent = []\<rparr>"

subsection \<open>Strings\<close>

text \<open>
  \<open>String.prototype.trim\<close> strips white space and line terminators from both ends. By
  ECMAScript these are the code units of: the white space characters tab, vertical tab,
  form feed and the zero width no-break space U+FEFF; the space separators (category Zs)
  U+0020, U+00A0, U+1680, U+2000 to U+200A, U+202F, U+205F and U+3000; and the line
  terminators line feed, carriage return, U+2028 and U+2029.
\<close>

definition is_space :: "nat \<Rightarrow> bool" where
  "is_space c \<longleftrightarrow>
     c \<in> set [0x09, 0x0B, 0x0C, 0xFEFF, 0x20, 0xA0, 0x1680, 0x202F, 0x205F, 0x3000,
               0x0A, 0x0D, 0x2028, 0x2029]
     \<or> (0x2000 \<le> c \<and> c \<le> 0x200A)"

definition trim :: "js_string \<Rightarrow> js_string" where
  "trim s = rev (dropWhile is_space (rev (dropWhile is_space s)))"

subsection \<open>App.tsx\<close>

definition assistant_message :: "js_string \<Rightarrow> chat_message" where
  "assistant_message t = \<lparr>role = R_assistant, content = t, toolCalls = None\<rparr>"

definition tool_message :: "tool_call list \<Rightarrow> chat_message" where
  "tool_message tcs = \<lparr>role = R_tool, content = [], toolCalls = Some tcs\<rparr>"

definition user_message :: "js_string \<Rightarrow> chat_message" where
  "user_message t = \<lparr>role = R_user, content = t, toolCalls = None\<rparr>"

definition thinking_message :: "js_string \<Rightarrow> chat_message" where
  "thinking_message t = \<lparr>role = R_thinking, content = t, toolCalls = None\<rparr>"

definition system_message :: "js_string \<Rightarrow> chat_message" where
  "system_message t = \<lparr>role = R_system, content = t, toolCalls = None\<rparr>"

definition running_tool :: "string \<Rightarrow> string \<Rightarrow> json \<Rightarrow> tool_call" where
  "running_tool i n inp =
     \<lparr>tc_id = i, tc_name = n, tc_input = inp, tc_status = S_running,
      tc_result = None, tc_isError = None\<rparr>"

text \<open>The object spread of the \<open>TOOL_RESULT\<close> cases: status, result and isError are set.\<close>

definition with_result :: "string \<Rightarrow> bool \<Rightarrow> tool_call \<Rightarrow> tool_call" where
  "with_result r is_error t =
     t\<lparr>tc_status := (if is_error then S_error else S_completed),
       tc_result := Some r, tc_isError := Some is_error\<rparr>"

definition flushAssistantMessage :: "client \<Rightarrow> client" where
  "flushAssistantMessage st =
     (if trim (currentAssistantMessage st) \<noteq> []
      then st\<lparr>messages := messages st @ [assistant_message (currentAssistantMessage st)],
              currentAssistantMessage := []\<rparr>
      else st\<lparr>currentAssistantMessage := []\<rparr>)"

definition flushToolCalls :: "client \<Rightarrow> client" where
  "flushToolCalls st =
     (if length (currentToolCalls st) > 0
      then st\<lparr>messages := messages st @ [tool_message (currentToolCalls st)],
              currentToolCalls := []\<rparr>
      else st\<lparr>currentToolCalls := []\<rparr>)"

text \<open>
  \<open>toFixed\<close> is \<open>Number.prototype.toFixed\<close> of the JavaScript runtime, a parameter of the model:
  \<open>toFixed 6 c\<close> is \<open>c.toFixed(6)\<close>.
\<close>

definition completed_text :: "(nat \<Rightarrow> rat \<Rightarrow> js_string) \<Rightarrow> rat \<Rightarrow> js_string" where
  "completed_text toFixed c = ascii ''Completed. Cost: $'' @ toFixed 6 c"

text \<open>\<open>if (data.cost)\<close>: a missing field, \<open>null\<close> and the number zero are falsy.\<close>

fun truthy_cost :: "rat option \<Rightarrow> bool" where
  "truthy_cost None = False"
| "truthy_cost (Some c) = (c \<noteq> 0)"

subsubsection \<open>handleHistory\<close>

text \<open>\<open>m.toolCalls.find(t => t.id === data.tool_use_id)\<close> and the update of the tool found.\<close>

fun update_found :: "string \<Rightarrow> string \<Rightarrow> bool \<Rightarrow> tool_call list \<Rightarrow> tool_call list option" where
  "update_found i r e [] = None"
| "update_found i r e (t # ts) =
     (if tc_id t = i then Some (with_result r e t # ts)
      else map_option ((#) t) (update_found i r e ts))"

text \<open>
  The loop \<open>for (let i = restoredMessages.length - 1; i >= 0; i--)\<close>, on the reversed list:
  the first tool message that has the tool call is updated, and the loop breaks.
\<close>

fun restore_result :: "string \<Rightarrow> string \<Rightarrow> bool \<Rightarrow> chat_message list \<Rightarrow> chat_message list" where
  "restore_result i r e [] = []"
| "restore_result i r e (m # ms) =
     (case (if role m = R_tool then toolCalls m else None) of
        None \<Rightarrow> m # restore_result i r e ms
      | Some tcs \<Rightarrow>
          (case update_found i r e tcs of
             None \<Rightarrow> m # restore_result i r e ms
           | Some tcs' \<Rightarrow> m\<lparr>toolCalls := Some tcs'\<rparr> # ms))"

text \<open>One iteration of the loop over \<open>historyMessages\<close>; \<open>rs\<close> is \<open>restoredMessages\<close>.\<close>

fun history_step ::
  "(nat \<Rightarrow> rat \<Rightarrow> js_string) \<Rightarrow> chat_message list \<Rightarrow> ws_message \<Rightarrow> chat_message list" where
  "history_step fx rs (USER_MESSAGE c fs) = rs @ [user_message c]"
| "history_step fx rs (ASSISTANT_TEXT t) =
     (if rs \<noteq> [] \<and> role (last rs) = R_assistant
      then butlast rs @ [(last rs)\<lparr>content := content (last rs) @ t\<rparr>]
      else rs @ [assistant_message t])"
| "history_step fx rs (THINKING t) = rs @ [thinking_message t]"
| "history_step fx rs (TOOL_USE i n inp) =
     (if rs \<noteq> [] \<and> role (last rs) = R_tool
      then butlast rs @
           [(last rs)\<lparr>toolCalls :=
              Some ((case toolCalls (last rs) of None \<Rightarrow> [] | Some tcs \<Rightarrow> tcs)
                    @ [running_tool i n inp])\<rparr>]
      else rs @ [tool_message [running_tool i n inp]])"
| "history_step fx rs (TOOL_RESULT i r e) = rev (restore_result i r e (rev rs))"
| "history_step fx rs (RESULT c) =
     (if truthy_cost c then rs @ [system_message (completed_text fx (the c))] else rs)"
| "history_step fx rs (ERROR m) = rs @ [system_message (ascii ''Error: '' @ m)]"
| "history_step fx rs _ = rs"

definition restored :: "(nat \<Rightarrow> rat \<Rightarrow> js_string) \<Rightarrow> ws_message list \<Rightarrow> chat_message list" where
  "restored fx historyMessages = foldl (history_step fx) [] historyMessages"

definition handleHistory :: "(nat \<Rightarrow> rat \<Rightarrow> js_string) \<Rightarrow> ws_message list \<Rightarrow> client \<Rightarrow> client" where
  "handleHistory fx historyMessages st = st\<lparr>messages := restored fx historyMessages\<rparr>"

definition handleSessionCleared :: "client \<Rightarrow> client" where
  "handleSessionCleared st =
     st\<lparr>messages := [], currentAssistantMessage := [], currentToolCalls := [],
        pendingApproval := None\<rparr>"

subsubsection \<open>handleMessage\<close>

text \<open>
  The order of the updates. A handler's own \<open>setMessages\<close> is queued while the handler
  runs. \<open>flushAssistantMessage\<close> and \<open>flushToolCalls\<close> only queue an updater on their own
  cell; the \<open>setMessages\<close> inside that updater is called when React runs the updater, at
  the render that follows the handler. So where a handler flushes and then appends a
  message itself, the appended message is in the transcript first, and what the flushes
  commit comes after it (the updater of \<open>currentAssistantMessage\<close> before that of
  \<open>currentToolCalls\<close>, in the order of the cells). Where the handler's own update is to
  another cell than \<open>messages\<close>, the order does not show. A render follows every message.
\<close>

fun handleMessage :: "(nat \<Rightarrow> rat \<Rightarrow> js_string) \<Rightarrow> ws_message \<Rightarrow> client \<Rightarrow> client" where
  "handleMessage fx (ASSISTANT_TEXT t) st =
     (let st1 = flushToolCalls st
      in st1\<lparr>currentAssistantMessage := currentAssistantMessage st1 @ t\<rparr>)"
| "handleMessage fx (THINKING t) st =
     flushToolCalls (flushAssistantMessage
       (st\<lparr>messages := messages st @ [thinking_message t]\<rparr>))"
| "handleMessage fx (TOOL_USE i n inp) st =
     (let st1 = flushAssistantMessage st
      in st1\<lparr>currentToolCalls := currentToolCalls st1 @ [running_tool i n inp]\<rparr>)"
| "handleMessage fx (TOOL_RESULT i r e) st =
     st\<lparr>currentToolCalls :=
          map (\<lambda>tool. if tc_id tool = i then with_result r e tool else tool)
              (currentToolCalls st)\<rparr>"
| "handleMessage fx (ERROR m) st =
     flushToolCalls (flushAssistantMessage
       (st\<lparr>messages := messages st @ [system_message (ascii ''Error: '' @ m)]\<rparr>))"
| "handleMessage fx (RESULT c) st =
     flushToolCalls (flushAssistantMessage
       (if truthy_cost c
        then st\<lparr>messages := messages st @ [system_message (completed_text fx (the c))]\<rparr>
        else st))"
| "handleMessage fx _ st = st"

definition handleApprovalRequest :: "approval_request \<Rightarrow> client \<Rightarrow> client" where
  "handleApprovalRequest request st =
     (flushToolCalls (flushAssistantMessage st))\<lparr>pendingApproval := Some request\<rparr>"

text \<open>
  What the component renders as the transcript: the messages, then the tool calls in
  progress (\<open>currentToolCalls.length > 0\<close>), then the streaming assistant message
  (\<open>currentAssistantMessage &&\<close>, a non-empty string).
\<close>

definition displayed :: "client \<Rightarrow> chat_message list" where
  "displayed st =
     messages st
     @ (if length (currentToolCalls st) > 0 then [tool_message (currentToolCalls st)] else [])
     @ (if currentAssistantMessage st \<noteq> [] then [assistant_message (currentAssistantMessage st)]
        else [])"

subsection \<open>hooks/useWebSocket.ts\<close>

definition sendMessage :: "ws_message \<Rightarrow> client \<Rightarrow> client" where
  "sendMessage m st = (if wsRef st = Some OPEN then st\<lparr>sent := sent st @ [m]\<rparr> else st)"

definition sendUserMessage :: "js_string \<Rightarrow> string list option \<Rightarrow> client \<Rightarrow> client" where
  "sendUserMessage c filePaths = sendMessage (USER_MESSAGE c filePaths)"

definition sendApprovalResponse :: "bool \<Rightarrow> string option \<Rightarrow> client \<Rightarrow> client" where
  "sendApprovalResponse approved reason = sendMessage (APPROVAL_RESPONSE approved reason)"

definition interrupt :: "client \<Rightarrow> client" where
  "interrupt = sendMessage INTERRUPT"

definition clearSession :: "client \<Rightarrow> client" where
  "clearSession = sendMessage CLEAR_SESSION"

text \<open>\<open>if (data.session_id)\<close>: a missing field and the empty string are falsy.\<close>

definition store_session_id :: "string option \<Rightarrow> client \<Rightarrow> client" where
  "store_session_id sid st =
     (case sid of
        None \<Rightarrow> st
      | Some newSessionId \<Rightarrow>
          if newSessionId \<noteq> []
          then st\<lparr>sessionId := Some newSessionId, localStorage_session := Some newSessionId\<rparr>
          else st)"

definition status_update :: "string \<Rightarrow> client \<Rightarrow> client" where
  "status_update s st =
     (if s = ''session_cleared'' then handleSessionCleared st
      else if s = ''thinking'' then st\<lparr>agentStatus := A_thinking\<rparr>
      else if s = ''done''
        then st\<lparr>agentStatus := A_done, timers := timers st @ [SetAgentStatus 500 A_idle]\<rparr>
      else if s = ''error'' then st\<lparr>agentStatus := A_error\<rparr>
      else if s = ''interrupted''
        then st\<lparr>agentStatus := A_interrupted, timers := timers st @ [SetAgentStatus 500 A_idle]\<rparr>
      else st)"

text \<open>The hook's own \<open>handleMessage\<close>, which hands every other message to the one of \<open>App\<close>.\<close>

fun useWebSocket_handleMessage ::
  "(nat \<Rightarrow> rat \<Rightarrow> js_string) \<Rightarrow> ws_message \<Rightarrow> client \<Rightarrow> client" where
  "useWebSocket_handleMessage fx (STATUS s sid) st = status_update s (store_session_id sid st)"
| "useWebSocket_handleMessage fx (HISTORY ms) st = handleHistory fx ms st"
| "useWebSocket_handleMessage fx (APPROVAL_REQUEST n inp) st =
     handleApprovalRequest \<lparr>toolName = n, toolInput = inp\<rparr> st"
| "useWebSocket_handleMessage fx m st = handleMessage fx m st"

text \<open>
  \<open>ws.onmessage\<close>. \<open>parse\<close> is \<open>JSON.parse\<close> at the type the source gives its result,
  \<open>WSMessage\<close>; \<open>None\<close> is the \<open>SyntaxError\<close> it throws, which the \<open>catch\<close> logs.
\<close>

definition onmessage ::
  "(string \<Rightarrow> ws_message option) \<Rightarrow> (nat \<Rightarrow> rat \<Rightarrow> js_string) \<Rightarrow> string \<Rightarrow> client \<Rightarrow> client" where
  "onmessage parse fx payload st =
     (case parse payload of
        None \<Rightarrow> st\<lparr>console_errors := console_errors st + 1\<rparr>
      | Some message \<Rightarrow> useWebSocket_handleMessage fx message st)"

text \<open>The oldest pending timer runs its callback.\<close>

fun fire_timer :: "client \<Rightarrow> client" where
  "fire_timer st =
     (case timers st of
        [] \<Rightarrow> st
      | SetAgentStatus d a # ts \<Rightarrow> st\<lparr>agentStatus := a, timers := ts\<rparr>)"


section \<open>The Agent Session Orchestrator and its Approval Gate\<close>

text \<open>
  The server side (the session class of the FastAPI backend, \<open>web/backend/main.py\<close>, which
  the architecture notes describe) is not among the source files. Its operations are
  modelled from the specification, one handler per client event, engine event or timer,
  each running to its end before the next one starts (the single critical section of the
  specification's concurrency model).
\<close>

text \<open>
  Modelled from the spec: \<open>AgentSessionState\<close> (the session class is missing from the
  sources).
\<close>

datatype agent_session_state =
  St_idle | St_thinking | St_awaiting_approval | St_interrupted | St_error

text \<open>
  Modelled from the spec: \<open>PendingApproval\<close> and \<open>Decision\<close> (the gate is missing from the
  sources); the wait primitive is the suspended turn task and is not a field.
\<close>

record pending_approval =
  tool_name :: string
  tool_input :: json
  resolved :: bool
  approved :: bool
  deny_reason :: "string option"

type_synonym decision = "bool \<times> string option"

text \<open>
  Modelled from the spec: the orchestrator's in-memory state (the session class is missing
  from the sources). \<open>approvals\<close> holds the PendingApprovals that exist, \<open>log\<close> the Persistent
  Session Log. The other fields record what the orchestrator did to its surroundings:
  \<open>emitted\<close> the events sent to the transport, \<open>queries\<close> the messages submitted to the Agent
  Execution Client, \<open>cancellations\<close> the cancel signals given to it, and \<open>decisions\<close> the
  decisions the Approval Gate returned to the waiting turn task.
\<close>

record orchestrator =
  session_id :: nat
  state :: agent_session_state
  approvals :: "pending_approval list"
  pending_message :: "(js_string \<times> string list) option"
  log :: "ws_message list"
  client_connected :: bool
  emitted :: "ws_message list"
  queries :: "(js_string \<times> string list) list"
  cancellations :: nat
  decisions :: "decision list"

text \<open>
  Modelled from the spec: a new orchestrator (its constructor is missing from the sources):
  state \<open>idle\<close>, nothing pending, no client.
\<close>

definition initial_orchestrator :: orchestrator where
  "initial_orchestrator =
     \<lparr>session_id = 0, state = St_idle, approvals = [], pending_message = None, log = [],
      client_connected = False, emitted = [], queries = [], cancellations = 0,
      decisions = []\<rparr>"

subsection \<open>Approval Gate\<close>

text \<open>
  Modelled from the spec: the PendingApproval that \<open>request\<close> creates (the gate,
  \<open>_request_human_approval\<close>, is missing from the sources).
\<close>

definition new_pending :: "string \<Rightarrow> json \<Rightarrow> pending_approval" where
  "new_pending n inp =
     \<lparr>tool_name = n, tool_input = inp, resolved = False, approved = False,
      deny_reason = None\<rparr>"

text \<open>
  Modelled from the spec: \<open>resolve(decision)\<close> of the Approval Gate (missing from the
  sources). Double resolution is a no-op, the first resolution wins.
\<close>

definition resolve :: "decision \<Rightarrow> pending_approval \<Rightarrow> pending_approval" where
  "resolve d p =
     (if resolved p then p
      else p\<lparr>resolved := True, approved := fst d, deny_reason := snd d\<rparr>)"

text \<open>
  Modelled from the spec: the \<open>Decision\<close> that \<open>request\<close> returns to the suspended task once
  the gate is resolved (missing from the sources).
\<close>

definition decision_of :: "pending_approval \<Rightarrow> decision" where
  "decision_of p = (approved p, deny_reason p)"

text \<open>
  Modelled from the spec: writing an event to the Persistent Session Log and then
  forwarding it to the transport (\<open>send\<close>, missing from the sources).
\<close>

definition emit :: "ws_message \<Rightarrow> orchestrator \<Rightarrow> orchestrator" where
  "emit ev s = s\<lparr>log := log s @ [ev], emitted := emitted s @ [ev]\<rparr>"

text \<open>
  Modelled from the spec: resolving the PendingApprovals that exist with one decision,
  which unblocks the gate: each decision reaches the waiting task and the PendingApproval
  is destroyed (missing from the sources).
\<close>

definition resolve_pending :: "decision \<Rightarrow> orchestrator \<Rightarrow> orchestrator" where
  "resolve_pending d s =
     s\<lparr>decisions := decisions s @ map (\<lambda>p. decision_of (resolve d p)) (approvals s),
       approvals := []\<rparr>"

text \<open>
  Modelled from the spec: \<open>request(tool_name, tool_input)\<close> of the Approval Gate up to the
  point where the calling task suspends (missing from the sources): it creates a
  PendingApproval and emits an \<open>approval_request\<close>; the state machine goes from
  \<open>thinking\<close> to \<open>awaiting_approval\<close>.
\<close>

definition request :: "string \<Rightarrow> json \<Rightarrow> orchestrator \<Rightarrow> orchestrator" where
  "request n inp s =
     (emit (APPROVAL_REQUEST n inp) (s\<lparr>approvals := approvals s @ [new_pending n inp]\<rparr>))
       \<lparr>state := St_awaiting_approval\<rparr>"

text \<open>
  Modelled from the spec: a resolution of the gate that is not an interrupt (missing from
  the sources). With no PendingApproval it is a no-op; otherwise the turn resumes,
  \<open>awaiting_approval\<close> goes back to \<open>thinking\<close>.
\<close>

definition approval_resolved :: "decision \<Rightarrow> orchestrator \<Rightarrow> orchestrator" where
  "approval_resolved d s =
     (if approvals s = [] then s
      else (resolve_pending d s)
             \<lparr>state := (if state s = St_awaiting_approval then St_thinking else state s)\<rparr>)"

text \<open>
  Modelled from the spec: the operator-response handler, \<open>handle_approval_response\<close>
  (missing from the sources), which calls \<open>resolve(decision)\<close>.
\<close>

definition handle_approval_response :: "bool \<Rightarrow> string option \<Rightarrow> orchestrator \<Rightarrow> orchestrator" where
  "handle_approval_response a reason s = approval_resolved (a, reason) s"

text \<open>
  Modelled from the spec: the fixed timeout of the gate, in seconds (a constant of
  \<open>_request_human_approval\<close>, missing from the sources).
\<close>

definition approval_timeout_seconds :: nat where
  "approval_timeout_seconds = 300"

text \<open>
  Modelled from the spec: the gate's timer running out (in \<open>_request_human_approval\<close>,
  missing from the sources): the gate resolves itself as denied with reason "timeout" and
  emits a \<open>status=error\<close> notice. With no PendingApproval left it does nothing.
\<close>

definition approval_timeout :: "orchestrator \<Rightarrow> orchestrator" where
  "approval_timeout s =
     (if approvals s = [] then s
      else emit (STATUS ''error'' None) (approval_resolved (False, Some ''timeout'') s))"

subsection \<open>Handlers\<close>

text \<open>
  Modelled from the spec: \<open>handle_user_message\<close> in state \<open>idle\<close> (missing from the
  sources): a new turn begins, the client is connected if it was not, the query is
  submitted, \<open>idle\<close> goes to \<open>thinking\<close>.
\<close>

definition begin_turn :: "js_string \<times> string list \<Rightarrow> orchestrator \<Rightarrow> orchestrator" where
  "begin_turn m s =
     s\<lparr>client_connected := True, queries := queries s @ [m], state := St_thinking\<rparr>"

text \<open>
  Modelled from the spec: the steps of \<open>handle_interrupt\<close> on a turn in flight (missing from
  the sources), in the order of the specification: a PendingApproval that exists is resolved
  with \<open>approved=false, deny_reason="interrupted"\<close>; the Agent Execution Client gets the
  cancel signal; the state becomes \<open>interrupted\<close>; \<open>status=interrupted\<close> is emitted; the
  state returns to \<open>idle\<close>.
\<close>

definition interrupt_turn :: "orchestrator \<Rightarrow> orchestrator" where
  "interrupt_turn s =
     (let s1 = resolve_pending (False, Some ''interrupted'') s;
          s2 = s1\<lparr>cancellations := cancellations s1 + 1\<rparr>;
          s3 = s2\<lparr>state := St_interrupted\<rparr>;
          s4 = emit (STATUS ''interrupted'' None) s3
      in s4\<lparr>state := St_idle\<rparr>)"

text \<open>
  Modelled from the spec: "if a pending user message was queued, dispatch it now" (missing
  from the sources). The interruption has returned the state to \<open>idle\<close>, where the fresh
  \<open>handle_user_message\<close> call begins a turn.
\<close>

definition dispatch_pending :: "orchestrator \<Rightarrow> orchestrator" where
  "dispatch_pending s =
     (case pending_message s of
        None \<Rightarrow> s
      | Some m \<Rightarrow> begin_turn m (s\<lparr>pending_message := None\<rparr>))"

text \<open>Modelled from the spec: \<open>handle_interrupt\<close> (missing from the sources).\<close>

definition handle_interrupt :: "orchestrator \<Rightarrow> orchestrator" where
  "handle_interrupt s =
     (if state s = St_idle then s else dispatch_pending (interrupt_turn s))"

text \<open>
  Modelled from the spec: storing a message as the single pending message, superseding any
  previously queued one (missing from the sources).
\<close>

definition queue_message :: "js_string \<times> string list \<Rightarrow> orchestrator \<Rightarrow> orchestrator" where
  "queue_message m s = s\<lparr>pending_message := Some m\<rparr>"

text \<open>
  Modelled from the spec: \<open>handle_user_message(content, attachments)\<close> (missing from the
  sources). In \<open>idle\<close> a turn begins. In \<open>thinking\<close> and \<open>awaiting_approval\<close> the call is a
  redirect: the turn in flight is interrupted, the message is stored as the pending
  message, and it is dispatched once the interruption has finished. The specification
  gives no behaviour in the two transient states, where the call does nothing here.
\<close>

definition handle_user_message :: "js_string \<times> string list \<Rightarrow> orchestrator \<Rightarrow> orchestrator" where
  "handle_user_message m s =
     (if state s = St_idle then begin_turn m s
      else if state s = St_thinking \<or> state s = St_awaiting_approval
        then dispatch_pending (queue_message m (interrupt_turn s))
      else s)"

text \<open>
  Modelled from the spec: \<open>handle_clear_session\<close> (missing from the sources): the log is
  discarded, the client disconnected, a new session identifier generated, the in-memory
  state reset, and \<open>status=session_cleared\<close> emitted.
\<close>

definition handle_clear_session :: "orchestrator \<Rightarrow> orchestrator" where
  "handle_clear_session s =
     emit (STATUS ''session_cleared'' None)
       (s\<lparr>session_id := session_id s + 1, state := St_idle, approvals := [],
          pending_message := None, log := [], client_connected := False\<rparr>)"

text \<open>
  Modelled from the spec: what the Agent Execution Client hands to the turn-processing task
  (the client is an external collaborator): an event to forward, a request for approval
  through the permission callback, the result that ends the turn, or a failure.
\<close>

datatype engine_event =
    Streams ws_message
  | Requests_approval string json
  | Completes "rat option"
  | Fails js_string

text \<open>
  Modelled from the spec: what the turn-processing task does with the next item of the
  engine's stream (the streaming loop of \<open>handle_user_message\<close>, missing from the sources).
  The task consumes the stream in state \<open>thinking\<close> only: with no turn in flight there is no
  stream, and in \<open>awaiting_approval\<close> the task is suspended at the gate.
\<close>

fun turn_step :: "engine_event \<Rightarrow> orchestrator \<Rightarrow> orchestrator" where
  "turn_step e s =
     (if state s \<noteq> St_thinking then s
      else case e of
        Streams ev \<Rightarrow> emit ev s
      | Requests_approval n inp \<Rightarrow> request n inp s
      | Completes c \<Rightarrow> (emit (RESULT c) s)\<lparr>state := St_idle\<rparr>
      | Fails m \<Rightarrow> (emit (ERROR m) s)\<lparr>client_connected := False, state := St_idle\<rparr>)"

text \<open>
  Modelled from the spec: the message router \<open>handle_message\<close> (missing from the sources),
  which dispatches the four client-originated events.
\<close>

fun handle_message :: "ws_message \<Rightarrow> orchestrator \<Rightarrow> orchestrator" where
  "handle_message (USER_MESSAGE c fs) s =
     handle_user_message (c, case fs of None \<Rightarrow> [] | Some ps \<Rightarrow> ps) s"
| "handle_message (APPROVAL_RESPONSE a reason) s = handle_approval_response a reason s"
| "handle_message INTERRUPT s = handle_interrupt s"
| "handle_message CLEAR_SESSION s = handle_clear_session s"
| "handle_message _ s = s"

text \<open>
  Modelled from the spec: the three activities of one session (receive loop, turn task,
  timeout timer), serialised: every interleaving of them is a list of inputs.
  \<open>Waited n\<close> is the gate's timer after \<open>n\<close> seconds without a response.
\<close>

datatype input = Receives ws_message | Engine engine_event | Waited nat

text \<open>
  Modelled from the spec: one activity runs one handler (the scheduling of the session is
  missing from the sources); the timer fires once the timeout has elapsed.
\<close>

fun step :: "orchestrator \<Rightarrow> input \<Rightarrow> orchestrator" where
  "step s (Receives m) = handle_message m s"
| "step s (Engine e) = turn_step e s"
| "step s (Waited seconds) =
     (if seconds \<ge> approval_timeout_seconds then approval_timeout s else s)"

text \<open>
  Modelled from the spec: the session after a list of inputs, from a new orchestrator
  (missing from the sources).
\<close>

definition run :: "input list \<Rightarrow> orchestrator" where
  "run inputs = foldl step initial_orchestrator inputs"


section \<open>Notions used in the statements\<close>

text \<open>The tool calls of a message, none where the field is undefined.\<close>

definition calls :: "chat_message \<Rightarrow> tool_call list" where
  "calls m = (case toolCalls m of None \<Rightarrow> [] | Some tcs \<Rightarrow> tcs)"

text \<open>
  Two lists of tool calls agree position by position, except that a call with the id \<open>i\<close>
  may have received the result.
\<close>

definition only_result_of ::
  "string \<Rightarrow> string \<Rightarrow> bool \<Rightarrow> tool_call list \<Rightarrow> tool_call list \<Rightarrow> bool" where
  "only_result_of i r e = list_all2 (\<lambda>t t'. t' = t \<or> (tc_id t = i \<and> t' = with_result r e t))"

text \<open>The same for two transcripts: roles and contents agree, the tool calls as above.\<close>

definition only_result_in ::
  "string \<Rightarrow> string \<Rightarrow> bool \<Rightarrow> chat_message list \<Rightarrow> chat_message list \<Rightarrow> bool" where
  "only_result_in i r e =
     list_all2 (\<lambda>m m'. role m' = role m \<and> content m' = content m
                  \<and> (toolCalls m' = None \<longleftrightarrow> toolCalls m = None)
                  \<and> only_result_of i r e (calls m) (calls m'))"

text \<open>
  The invariant of the orchestrator: no message stays queued between two handlers, the
  state is one of the three stable ones, and a PendingApproval exists only in
  \<open>awaiting_approval\<close>, alone and unresolved.
\<close>

definition session_inv :: "orchestrator \<Rightarrow> bool" where
  "session_inv s \<longleftrightarrow>
     pending_message s = None
     \<and> (state s = St_idle \<or> state s = St_thinking \<or> state s = St_awaiting_approval)
     \<and> (approvals s \<noteq> [] \<longrightarrow> state s = St_awaiting_approval \<and> length (approvals s) = 1)
     \<and> (\<forall>p \<in> set (approvals s). \<not> resolved p)"

text \<open>Two sessions used as concrete inputs: a turn in flight, and a turn at the gate.\<close>

definition thinking_session :: orchestrator where
  "thinking_session = run [Receives (USER_MESSAGE (ascii ''list files'') None)]"

definition awaiting_session :: orchestrator where
  "awaiting_session =
     run [Receives (USER_MESSAGE (ascii ''list files'') None), Engine (Requests_approval ''Bash'' ''{}'')]"

text \<open>
  The live handling of a list of events, one at a time, from a given state: each event
  goes through the hook's \<open>handleMessage\<close>, which hands an \<open>approval_request\<close> to
  \<open>handleApprovalRequest\<close>, a \<open>history\<close> to \<open>handleHistory\<close>, treats a \<open>status\<close> itself and
  passes the rest to the \<open>handleMessage\<close> of \<open>App\<close>.
\<close>

definition live :: "(nat \<Rightarrow> rat \<Rightarrow> js_string) \<Rightarrow> ws_message list \<Rightarrow> client \<Rightarrow> client" where
  "live fx evs st = foldl (\<lambda>st ev. useWebSocket_handleMessage fx ev st) st evs"

text \<open>
  What the end of the transcript looks like, as far as it decides how the next event is
  handled: nothing yet (\<open>Empty\<close>); a last message to which neither handler appends
  (\<open>Settled\<close>); a run of assistant text that is still streaming, with the text so far
  (\<open>Streaming\<close>); a group of tool calls still in progress, with their ids (\<open>Calling\<close>); or a
  run of text, or a group of tool calls, that the live handler has flushed with nothing
  after it (\<open>Text_flushed\<close>, \<open>Calls_flushed\<close>).
\<close>

datatype tail =
  Empty | Settled | Streaming js_string | Calling "string list" | Text_flushed | Calls_flushed

fun buffered :: "tail \<Rightarrow> bool" where
  "buffered (Streaming u) = True"
| "buffered (Calling cur) = True"
| "buffered _ = False"

fun flushable :: "tail \<Rightarrow> bool" where
  "flushable (Streaming u) = (trim u \<noteq> [])"
| "flushable _ = True"

fun flushed :: "tail \<Rightarrow> tail" where
  "flushed (Streaming u) = Text_flushed"
| "flushed (Calling cur) = Calls_flushed"
| "flushed w = w"

fun streamed :: "tail \<Rightarrow> js_string" where
  "streamed (Streaming u) = u"
| "streamed _ = []"

fun called :: "tail \<Rightarrow> string list" where
  "called (Calling cur) = cur"
| "called _ = []"

text \<open>
  The event lists on which replay and live handling agree; \<open>seen\<close> holds the ids of all
  tool calls so far.
  \<^item> An assistant text extends the run, or starts one; it may be blank or empty. It must
    not follow text that was flushed: the replay would merge the two.
  \<^item> A tool use flushes the text, which must not be blank then (the live handler would drop
    it). It must not follow a flushed group of tool calls (the replay would merge), and
    its id must be new in its group.
  \<^item> A tool result names a tool call of the group in progress, or an id that no tool call
    had; the live handler looks nowhere else.
  \<^item> A thinking, an error and a result with a cost come only when nothing is buffered: the
    live handler puts their message before what it flushes.
  \<^item> A result without cost and an approval request flush; buffered text must not be blank.
  \<^item> A \<open>status=session_cleared\<close> comes only while the transcript is empty; other status
    events anywhere.
  \<^item> There is no user message (the live handlers have no case for it; the live transcript
    gets it from \<open>handleSend\<close>) and no nested history.
  \<^item> The list does not end on a run of text that is empty.
  The events that neither handler has a case for are allowed anywhere.
\<close>

fun replayable :: "string list \<Rightarrow> tail \<Rightarrow> ws_message list \<Rightarrow> bool" where
  "replayable seen w [] = (w \<noteq> Streaming [])"
| "replayable seen w (ASSISTANT_TEXT t # es) =
     (w \<noteq> Text_flushed \<and> replayable seen (Streaming (streamed w @ t)) es)"
| "replayable seen w (TOOL_USE i n inp # es) =
     (w \<noteq> Calls_flushed \<and> flushable w \<and> i \<notin> set (called w)
      \<and> replayable (i # seen) (Calling (i # called w)) es)"
| "replayable seen w (TOOL_RESULT i r e # es) =
     ((i \<in> set (called w) \<or> i \<notin> set seen) \<and> replayable seen w es)"
| "replayable seen w (THINKING t # es) = (\<not> buffered w \<and> replayable seen Settled es)"
| "replayable seen w (ERROR m # es) = (\<not> buffered w \<and> replayable seen Settled es)"
| "replayable seen w (RESULT c # es) =
     (if truthy_cost c then \<not> buffered w \<and> replayable seen Settled es
      else flushable w \<and> replayable seen (flushed w) es)"
| "replayable seen w (APPROVAL_REQUEST n inp # es) =
     (flushable w \<and> replayable seen (flushed w) es)"
| "replayable seen w (STATUS s sid # es) =
     ((s = ''session_cleared'' \<longrightarrow> w = Empty) \<and> replayable seen w es)"
| "replayable seen w (USER_MESSAGE c fs # es) = False"
| "replayable seen w (HISTORY ms # es) = False"
| "replayable seen w (_ # es) = replayable seen w es"

text \<open>
  The simulation relation between the restored messages \<open>rs\<close> and the live state, for each
  end of the transcript; and \<open>known\<close>: every tool call id in the live state is in \<open>seen\<close>.
\<close>

fun sim_tail :: "tail \<Rightarrow> chat_message list \<Rightarrow> client \<Rightarrow> bool" where
  "sim_tail Empty rs st \<longleftrightarrow>
     currentAssistantMessage st = [] \<and> currentToolCalls st = [] \<and> rs = []
     \<and> messages st = []"
| "sim_tail Settled rs st \<longleftrightarrow>
     currentAssistantMessage st = [] \<and> currentToolCalls st = [] \<and> rs = messages st
     \<and> (messages st = [] \<or> (role (last (messages st)) \<noteq> R_assistant
                             \<and> role (last (messages st)) \<noteq> R_tool))"
| "sim_tail (Streaming u) rs st \<longleftrightarrow>
     currentAssistantMessage st = u \<and> currentToolCalls st = []
     \<and> rs = messages st @ [assistant_message u]"
| "sim_tail (Calling cur) rs st \<longleftrightarrow>
     currentAssistantMessage st = [] \<and> currentToolCalls st \<noteq> []
     \<and> rs = messages st @ [tool_message (currentToolCalls st)]
     \<and> tc_id ` set (currentToolCalls st) = set cur
     \<and> distinct (map tc_id (currentToolCalls st))"
| "sim_tail Text_flushed rs st \<longleftrightarrow>
     currentAssistantMessage st = [] \<and> currentToolCalls st = [] \<and> rs = messages st
     \<and> messages st \<noteq> [] \<and> role (last (messages st)) = R_assistant"
| "sim_tail Calls_flushed rs st \<longleftrightarrow>
     currentAssistantMessage st = [] \<and> currentToolCalls st = [] \<and> rs = messages st
     \<and> messages st \<noteq> [] \<and> role (last (messages st)) = R_tool"

definition known :: "string list \<Rightarrow> client \<Rightarrow> bool" where
  "known seen st \<longleftrightarrow>
     (\<forall>m \<in> set (messages st). \<forall>t \<in> set (calls m). tc_id t \<in> set seen)
     \<and> (\<forall>t \<in> set (currentToolCalls st). tc_id t \<in> set seen)"

definition sim :: "string list \<Rightarrow> tail \<Rightarrow> chat_message list \<Rightarrow> client \<Rightarrow> bool" where
  "sim seen w rs st \<longleftrightarrow> sim_tail w rs st \<and> known seen st"

fun is_history :: "ws_message \<Rightarrow> bool" where
  "is_history (HISTORY ms) = True"
| "is_history _ = False"

text \<open>A turn, and a client with text in its buffer, used as concrete inputs.\<close>

definition sample_turn :: "ws_message list" where
  "sample_turn =
     [STATUS ''session_cleared'' (Some ''s2''), STATUS ''thinking'' None,
      THINKING (ascii ''hm''), ASSISTANT_TEXT (ascii ''Let me''),
      ASSISTANT_TEXT (ascii '' ''), ASSISTANT_TEXT (ascii ''look.''),
      TOOL_USE ''t1'' ''Bash'' ''ls'', TOOL_USE ''t2'' ''Read'' ''a.txt'',
      TOOL_RESULT ''t1'' ''a.txt'' False, ASSISTANT_TEXT (ascii ''Done.''), RESULT (Some 0),
      STATUS ''done'' None]"

definition streaming_client :: client where
  "streaming_client = initial_client\<lparr>currentAssistantMessage := ascii ''Done.''\<rparr>"

section \<open>Evaluation\<close>

lemmas client_defs =
  restored_def live_def initial_client_def displayed_def flushToolCalls_def
  flushAssistantMessage_def handleApprovalRequest_def handleSessionCleared_def
  status_update_def store_session_id_def trim_def is_space_def ascii_def Let_def
  assistant_message_def tool_message_def user_message_def thinking_message_def
  system_message_def running_tool_def with_result_def completed_text_def

lemmas orchestrator_defs =
  run_def initial_orchestrator_def handle_user_message_def handle_interrupt_def
  handle_approval_response_def handle_clear_session_def approval_timeout_def
  approval_resolved_def resolve_pending_def dispatch_pending_def queue_message_def
  begin_turn_def interrupt_turn_def request_def emit_def new_pending_def resolve_def
  decision_of_def approval_timeout_seconds_def Let_def

lemma thinking_session_eq:
  "thinking_session = initial_orchestrator\<lparr>client_connected := True,
      queries := [(ascii ''list files'', [])], state := St_thinking\<rparr>"
  by (simp add: thinking_session_def run_def handle_user_message_def begin_turn_def
      initial_orchestrator_def)

lemma awaiting_session_eq:
  "awaiting_session = initial_orchestrator\<lparr>client_connected := True,
      queries := [(ascii ''list files'', [])], state := St_awaiting_approval,
      approvals := [new_pending ''Bash'' ''{}''],
      log := [APPROVAL_REQUEST ''Bash'' ''{}''], emitted := [APPROVAL_REQUEST ''Bash'' ''{}'']\<rparr>"
  by (simp add: awaiting_session_def run_def handle_user_message_def begin_turn_def
      initial_orchestrator_def request_def emit_def)

section \<open>The orchestrator\<close>

subsection \<open>The invariant holds in every reachable state\<close>

lemma session_inv_initial: "session_inv initial_orchestrator"
  by (simp add: session_inv_def initial_orchestrator_def)

lemma session_inv_handle_message: "session_inv s \<Longrightarrow> session_inv (handle_message m s)"
  by (cases m)
     (auto simp: session_inv_def handle_user_message_def handle_approval_response_def
        handle_interrupt_def handle_clear_session_def begin_turn_def dispatch_pending_def
        queue_message_def interrupt_turn_def resolve_pending_def emit_def
        approval_resolved_def Let_def)

lemma session_inv_turn_step: "session_inv s \<Longrightarrow> session_inv (turn_step e s)"
  by (cases e)
     (auto simp: session_inv_def request_def emit_def new_pending_def)

lemma session_inv_timeout: "session_inv s \<Longrightarrow> session_inv (approval_timeout s)"
  by (auto simp: session_inv_def approval_timeout_def approval_resolved_def
        resolve_pending_def emit_def)

lemma session_inv_step: "session_inv s \<Longrightarrow> session_inv (step s i)"
  by (cases i) (simp_all add: session_inv_handle_message session_inv_turn_step
      session_inv_timeout del: turn_step.simps)

lemma session_inv_foldl: "session_inv s \<Longrightarrow> session_inv (foldl step s inputs)"
  by (induction inputs arbitrary: s) (simp_all add: session_inv_step del: step.simps)

lemma session_inv_run: "session_inv (run inputs)"
  unfolding run_def by (rule session_inv_foldl) (rule session_inv_initial)

lemma interrupt_turn_fields:
  "state (interrupt_turn s) = St_idle"
  "approvals (interrupt_turn s) = []"
  "pending_message (interrupt_turn s) = pending_message s"
  "emitted (interrupt_turn s) = emitted s @ [STATUS ''interrupted'' None]"
  "cancellations (interrupt_turn s) = cancellations s + 1"
  "queries (interrupt_turn s) = queries s"
  by (simp_all add: interrupt_turn_def resolve_pending_def emit_def Let_def)

lemma fire_timers_last:
  "agentStatus ((fire_timer ^^ Suc (length (timers c))) (c\<lparr>timers := timers c @ [SetAgentStatus d a]\<rparr>)) = a"
proof (induction "timers c" arbitrary: c)
  case Nil
  then show ?case by simp
next
  case (Cons t ts)
  obtain d' a' where t: "t = SetAgentStatus d' a'" by (cases t)
  let ?c' = "c\<lparr>agentStatus := a', timers := ts\<rparr>"
  have ts: "ts = timers ?c'" by simp
  have step: "fire_timer (c\<lparr>timers := timers c @ [SetAgentStatus d a]\<rparr>)
              = ?c'\<lparr>timers := timers ?c' @ [SetAgentStatus d a]\<rparr>"
    using Cons.hyps(2) [symmetric] t by simp
  have "length (timers c) = Suc (length (timers ?c'))"
    using Cons.hyps(2) [symmetric] by simp
  then have "(fire_timer ^^ Suc (length (timers c))) (c\<lparr>timers := timers c @ [SetAgentStatus d a]\<rparr>)
        = (fire_timer ^^ Suc (length (timers ?c'))) (fire_timer (c\<lparr>timers := timers c @ [SetAgentStatus d a]\<rparr>))"
    by (simp only: funpow_Suc_right o_apply)
  then show ?case
    using Cons.hyps(1) [OF ts] step by (simp del: fire_timer.simps funpow.simps)
qed

lemma timers_store_session_id: "timers (store_session_id sid c) = timers c"
  by (simp add: store_session_id_def split: option.splits)

subsection \<open>Interrupt\<close>

text \<open>
  C1. In every reachable state of a session (its state is then \<open>idle\<close>, \<open>thinking\<close> or
  \<open>awaiting_approval\<close>), \<open>handle_interrupt\<close> leaves the session in state \<open>idle\<close>. From
  \<open>idle\<close> it is a no-op; from any other state it emits exactly one event, \<open>status=interrupted\<close>.
  On the client, a status event with status \<open>interrupted\<close> sets the agent status to
  \<open>interrupted\<close>, and the timer it starts sets it back to \<open>idle\<close>.
\<close>

theorem interrupt_returns_to_idle:
  "state (handle_interrupt (run inputs)) = St_idle
   \<and> (state (run inputs) = St_idle \<longrightarrow> handle_interrupt (run inputs) = run inputs)
   \<and> (state (run inputs) \<noteq> St_idle \<longrightarrow>
        emitted (handle_interrupt (run inputs))
          = emitted (run inputs) @ [STATUS ''interrupted'' None])
   \<and> agentStatus (useWebSocket_handleMessage fx (STATUS ''interrupted'' sid) c) = A_interrupted
   \<and> agentStatus ((fire_timer ^^ Suc (length (timers c)))
        (useWebSocket_handleMessage fx (STATUS ''interrupted'' sid) c)) = A_idle"
proof -
  have inv: "session_inv (run inputs)" by (rule session_inv_run)
  then have p: "pending_message (run inputs) = None" by (simp add: session_inv_def)
  have d: "handle_interrupt (run inputs)
           = (if state (run inputs) = St_idle then run inputs else interrupt_turn (run inputs))"
    using p by (simp add: handle_interrupt_def dispatch_pending_def interrupt_turn_fields)
  have 1: "state (handle_interrupt (run inputs)) = St_idle"
    using d by (simp add: interrupt_turn_fields)
  have 2: "state (run inputs) = St_idle \<longrightarrow> handle_interrupt (run inputs) = run inputs"
    using d by simp
  have 3: "state (run inputs) \<noteq> St_idle \<longrightarrow>
        emitted (handle_interrupt (run inputs))
          = emitted (run inputs) @ [STATUS ''interrupted'' None]"
    using d by (simp add: interrupt_turn_fields)
  let ?c = "store_session_id sid c"
  have e: "useWebSocket_handleMessage fx (STATUS ''interrupted'' sid) c
        = (?c\<lparr>agentStatus := A_interrupted\<rparr>)\<lparr>timers := timers (?c\<lparr>agentStatus := A_interrupted\<rparr>) @ [SetAgentStatus 500 A_idle]\<rparr>"
    by (simp add: status_update_def timers_store_session_id)
  have 4: "agentStatus (useWebSocket_handleMessage fx (STATUS ''interrupted'' sid) c) = A_interrupted"
    by (simp add: status_update_def)
  have "agentStatus ((fire_timer ^^ Suc (length (timers (?c\<lparr>agentStatus := A_interrupted\<rparr>))))
        (useWebSocket_handleMessage fx (STATUS ''interrupted'' sid) c)) = A_idle"
    unfolding e by (rule fire_timers_last)
  then have 5: "agentStatus ((fire_timer ^^ Suc (length (timers c)))
        (useWebSocket_handleMessage fx (STATUS ''interrupted'' sid) c)) = A_idle"
    by (simp add: timers_store_session_id del: fire_timer.simps funpow.simps useWebSocket_handleMessage.simps)
  from 1 2 3 4 5 show ?thesis by blast
qed

theorem interrupt_returns_to_idle_witness:
  "state (run [Receives (USER_MESSAGE (ascii ''list files'') None)]) \<noteq> St_idle
   \<and> state (handle_interrupt (run [Receives (USER_MESSAGE (ascii ''list files'') None)])) = St_idle
   \<and> emitted (handle_interrupt (run [Receives (USER_MESSAGE (ascii ''list files'') None)]))
       = [STATUS ''interrupted'' None]
   \<and> state (run []) = St_idle \<and> handle_interrupt (run []) = run []
   \<and> agentStatus (useWebSocket_handleMessage (\<lambda>d x. []) (STATUS ''interrupted'' None)
        initial_client) = A_interrupted
   \<and> agentStatus (fire_timer (useWebSocket_handleMessage (\<lambda>d x. [])
        (STATUS ''interrupted'' None) initial_client)) = A_idle"
  using interrupt_returns_to_idle [of "[Receives (USER_MESSAGE (ascii ''list files'') None)]"
      "\<lambda>d x. []" None initial_client]
    interrupt_returns_to_idle [of "[]" "\<lambda>d x. []" None initial_client]
  by (simp add: orchestrator_defs initial_client_def status_update_def store_session_id_def)

subsection \<open>Redirect\<close>

text \<open>
  C2. A \<open>user_message\<close> received in state \<open>thinking\<close> or \<open>awaiting_approval\<close> is stored as
  the single pending message, whatever was queued before; the turn in flight is
  interrupted exactly once (one cancel signal, one \<open>status=interrupted\<close>); the handler
  returns; and once the interruption has finished the queued message is dispatched as a
  fresh \<open>handle_user_message\<close> call, which begins a turn with it and leaves nothing queued.
\<close>

theorem redirect_queues_one_message:
  "state s = St_thinking \<or> state s = St_awaiting_approval \<Longrightarrow>
     pending_message (queue_message m (interrupt_turn s)) = Some m
     \<and> handle_user_message m s = dispatch_pending (queue_message m (interrupt_turn s))
     \<and> handle_user_message m s
         = handle_user_message m ((interrupt_turn s)\<lparr>pending_message := None\<rparr>)
     \<and> cancellations (handle_user_message m s) = cancellations s + 1
     \<and> emitted (handle_user_message m s) = emitted s @ [STATUS ''interrupted'' None]
     \<and> queries (handle_user_message m s) = queries s @ [m]
     \<and> state (handle_user_message m s) = St_thinking
     \<and> pending_message (handle_user_message m s) = None"
  by (auto simp: handle_user_message_def dispatch_pending_def queue_message_def
      begin_turn_def interrupt_turn_fields)

theorem redirect_queues_one_message_witness:
  "state thinking_session = St_thinking
   \<and> pending_message (queue_message (ascii ''stop'', []) (interrupt_turn thinking_session))
       = Some (ascii ''stop'', [])
   \<and> cancellations (handle_user_message (ascii ''stop'', []) thinking_session) = 1
   \<and> emitted (handle_user_message (ascii ''stop'', []) thinking_session)
       = [STATUS ''interrupted'' None]
   \<and> queries (handle_user_message (ascii ''stop'', []) thinking_session)
       = [(ascii ''list files'', []), (ascii ''stop'', [])]
   \<and> state (handle_user_message (ascii ''stop'', []) thinking_session) = St_thinking
   \<and> pending_message (handle_user_message (ascii ''stop'', []) thinking_session) = None"
  using redirect_queues_one_message [of thinking_session "(ascii ''stop'', [])"]
  by (simp add: thinking_session_eq initial_orchestrator_def handle_user_message_def
      dispatch_pending_def queue_message_def begin_turn_def interrupt_turn_def
      resolve_pending_def emit_def Let_def)

subsection \<open>Pending approvals\<close>

text \<open>
  C3. In every reachable state, whatever the interleaving of client events, engine events
  and timeouts, at most one PendingApproval exists. A step creates one only when none is
  outstanding (the engine's request in state \<open>thinking\<close>), and an operator response, an
  interrupt and a timeout each leave none. On the client the \<open>pendingApproval\<close> cell holds
  the request of the last \<open>approval_request\<close>, whatever it held before.
\<close>

theorem at_most_one_pending_approval:
  "length (approvals (run inputs)) \<le> 1
   \<and> (length (approvals (run inputs)) < length (approvals (step (run inputs) i))
        \<longrightarrow> approvals (run inputs) = [])
   \<and> approvals (handle_approval_response a reason (run inputs)) = []
   \<and> approvals (handle_interrupt (run inputs)) = []
   \<and> approvals (approval_timeout (run inputs)) = []
   \<and> approvals (step (run inputs) (Engine (Requests_approval n inp)))
       = (if state (run inputs) = St_thinking then [new_pending n inp] else approvals (run inputs))
   \<and> pendingApproval (handleApprovalRequest rq c) = Some rq"
proof -
  have inv: "session_inv (run inputs)" by (rule session_inv_run)
  have inv': "session_inv (step (run inputs) i)"
    using inv by (rule session_inv_step)
  have 1: "length (approvals (run inputs)) \<le> 1"
    using inv by (cases "approvals (run inputs)") (auto simp: session_inv_def)
  have "length (approvals (step (run inputs) i)) \<le> 1"
    using inv' by (cases "approvals (step (run inputs) i)") (auto simp: session_inv_def)
  then have 2: "length (approvals (run inputs)) < length (approvals (step (run inputs) i))
        \<longrightarrow> approvals (run inputs) = []"
    by (cases "approvals (run inputs)") auto
  have 3: "approvals (handle_approval_response a reason (run inputs)) = []"
    by (simp add: handle_approval_response_def approval_resolved_def resolve_pending_def)
  have 4: "approvals (handle_interrupt (run inputs)) = []"
    using inv
    by (auto simp: handle_interrupt_def dispatch_pending_def interrupt_turn_fields
        session_inv_def)
  have 5: "approvals (approval_timeout (run inputs)) = []"
    by (simp add: approval_timeout_def approval_resolved_def resolve_pending_def emit_def)
  have 6: "approvals (step (run inputs) (Engine (Requests_approval n inp)))
       = (if state (run inputs) = St_thinking then [new_pending n inp] else approvals (run inputs))"
    using inv by (auto simp: session_inv_def request_def emit_def)
  have 7: "pendingApproval (handleApprovalRequest rq c) = Some rq"
    by (simp add: handleApprovalRequest_def)
  from 1 2 3 4 5 6 7 show ?thesis by blast
qed

theorem at_most_one_pending_approval_witness:
  "length (approvals awaiting_session) = 1
   \<and> approvals (step awaiting_session (Engine (Requests_approval ''Write'' ''{}'')))
       = approvals awaiting_session
   \<and> approvals (handle_approval_response True None awaiting_session) = []
   \<and> approvals (handle_interrupt awaiting_session) = []
   \<and> approvals (approval_timeout awaiting_session) = []
   \<and> approvals (step thinking_session (Engine (Requests_approval ''Bash'' ''{}'')))
       = [new_pending ''Bash'' ''{}'']"
  using at_most_one_pending_approval
     [of "[Receives (USER_MESSAGE (ascii ''list files'') None), Engine (Requests_approval ''Bash'' ''{}'')]"
         "Engine (Requests_approval ''Write'' ''{}'')" True None "''Write''" "''{}''"]
    at_most_one_pending_approval
     [of "[Receives (USER_MESSAGE (ascii ''list files'') None)]"
         "Engine (Requests_approval ''Bash'' ''{}'')" True None "''Bash''" "''{}''"]
  by (simp add: awaiting_session_eq thinking_session_eq
      awaiting_session_eq [unfolded awaiting_session_def]
      thinking_session_eq [unfolded thinking_session_def]
      initial_orchestrator_def handle_approval_response_def approval_resolved_def
      resolve_pending_def handle_interrupt_def dispatch_pending_def interrupt_turn_def
      approval_timeout_def emit_def request_def new_pending_def Let_def)

subsection \<open>Approval timeout\<close>



subsection \<open>Double resolution\<close>

lemma resolve_twice: "resolve d' (resolve d p) = resolve d p"
  by (simp add: resolve_def)

lemma foldl_resolve_resolved:
  "resolved p \<Longrightarrow> foldl (\<lambda>p d. resolve d p) p ds = p"
  by (induction ds) (simp_all add: resolve_def)

text \<open>
  C5. For every sequence of resolutions of one PendingApproval, the gate is in the state,
  and returns the decision, of the first one; resolving a resolved gate changes nothing.
  In the orchestrator, the decision that reaches the waiting turn is that of the first
  resolution (response, timeout or interrupt); a response that arrives after the timeout,
  after another response or after an interrupt, and a timeout after a response or an
  interrupt, leave the session as it is; and an interrupt after a response or a timeout
  returns no second decision.
\<close>

theorem first_resolution_wins:
  "foldl (\<lambda>p d. resolve d p) (new_pending n inp) (d # ds) = resolve d (new_pending n inp)
   \<and> decision_of (foldl (\<lambda>p d. resolve d p) (new_pending n inp) (d # ds)) = d
   \<and> resolve d' (resolve d p) = resolve d p
   \<and> (approvals (run inputs) \<noteq> [] \<longrightarrow>
        decisions (handle_approval_response a reason (run inputs))
          = decisions (run inputs) @ [(a, reason)]
        \<and> decisions (approval_timeout (run inputs))
          = decisions (run inputs) @ [(False, Some ''timeout'')]
        \<and> decisions (interrupt_turn (run inputs))
          = decisions (run inputs) @ [(False, Some ''interrupted'')])
   \<and> decisions (interrupt_turn (handle_approval_response a reason s))
       = decisions (handle_approval_response a reason s)
   \<and> decisions (interrupt_turn (approval_timeout s)) = decisions (approval_timeout s)
   \<and> handle_approval_response a reason (approval_timeout s) = approval_timeout s
   \<and> approval_timeout (handle_approval_response a reason s) = handle_approval_response a reason s
   \<and> handle_approval_response a reason (handle_approval_response a' reason' s)
       = handle_approval_response a' reason' s
   \<and> handle_approval_response a reason (interrupt_turn s) = interrupt_turn s
   \<and> approval_timeout (interrupt_turn s) = interrupt_turn s"
proof -
  have r: "resolved (resolve d (new_pending n inp))"
    by (simp add: resolve_def new_pending_def)
  have 1: "foldl (\<lambda>p d. resolve d p) (new_pending n inp) (d # ds) = resolve d (new_pending n inp)"
    using foldl_resolve_resolved [OF r] by simp
  have 2: "decision_of (foldl (\<lambda>p d. resolve d p) (new_pending n inp) (d # ds)) = d"
    unfolding 1 by (simp add: decision_of_def resolve_def new_pending_def)
  have 3: "handle_approval_response a reason (approval_timeout s) = approval_timeout s"
    by (simp add: handle_approval_response_def approval_timeout_def approval_resolved_def
        resolve_pending_def emit_def)
  have 4: "approval_timeout (handle_approval_response a reason s) = handle_approval_response a reason s"
    by (simp add: handle_approval_response_def approval_timeout_def approval_resolved_def
        resolve_pending_def emit_def)
  have 5: "handle_approval_response a reason (handle_approval_response a' reason' s)
       = handle_approval_response a' reason' s"
    by (simp add: handle_approval_response_def approval_resolved_def resolve_pending_def)
  have 6: "handle_approval_response a reason (interrupt_turn s) = interrupt_turn s"
    by (simp add: handle_approval_response_def approval_resolved_def interrupt_turn_fields)
  have 7: "approval_timeout (interrupt_turn s) = interrupt_turn s"
    by (simp add: approval_timeout_def interrupt_turn_fields)
  have 8: "approvals (run inputs) \<noteq> [] \<longrightarrow>
        decisions (handle_approval_response a reason (run inputs))
          = decisions (run inputs) @ [(a, reason)]
        \<and> decisions (approval_timeout (run inputs))
          = decisions (run inputs) @ [(False, Some ''timeout'')]
        \<and> decisions (interrupt_turn (run inputs))
          = decisions (run inputs) @ [(False, Some ''interrupted'')]"
  proof
    assume a: "approvals (run inputs) \<noteq> []"
    have "session_inv (run inputs)" by (rule session_inv_run)
    with a obtain p where "approvals (run inputs) = [p]" and "\<not> resolved p"
      by (cases "approvals (run inputs)") (auto simp: session_inv_def)
    then show "decisions (handle_approval_response a reason (run inputs))
          = decisions (run inputs) @ [(a, reason)]
        \<and> decisions (approval_timeout (run inputs))
          = decisions (run inputs) @ [(False, Some ''timeout'')]
        \<and> decisions (interrupt_turn (run inputs))
          = decisions (run inputs) @ [(False, Some ''interrupted'')]"
      by (simp add: handle_approval_response_def approval_timeout_def approval_resolved_def
          interrupt_turn_def resolve_pending_def emit_def resolve_def decision_of_def Let_def)
  qed
  have 9: "decisions (interrupt_turn (handle_approval_response a reason s))
       = decisions (handle_approval_response a reason s)"
    by (simp add: handle_approval_response_def approval_resolved_def interrupt_turn_def
        resolve_pending_def emit_def Let_def)
  have 10: "decisions (interrupt_turn (approval_timeout s)) = decisions (approval_timeout s)"
    by (simp add: approval_timeout_def approval_resolved_def interrupt_turn_def
        resolve_pending_def emit_def Let_def)
  from 1 2 resolve_twice 3 4 5 6 7 8 9 10 show ?thesis by blast
qed

theorem first_resolution_wins_witness:
  "approvals awaiting_session \<noteq> []
   \<and> decisions (handle_approval_response True None awaiting_session) = [(True, None)]
   \<and> decisions (approval_timeout (handle_approval_response True None awaiting_session))
       = [(True, None)]
   \<and> decisions (interrupt_turn (handle_approval_response True None awaiting_session))
       = [(True, None)]
   \<and> decisions (handle_approval_response True None (approval_timeout awaiting_session))
       = [(False, Some ''timeout'')]
   \<and> decision_of (foldl (\<lambda>p d. resolve d p) (new_pending ''Bash'' ''{}'')
        [(False, Some ''timeout''), (True, None)]) = (False, Some ''timeout'')"
  using first_resolution_wins [where inputs = "[Receives (USER_MESSAGE (ascii ''list files'') None),
        Engine (Requests_approval ''Bash'' ''{}'')]"
      and a = True and reason = None and s = awaiting_session
      and n = "''Bash''" and inp = "''{}''" and d = "(False, Some ''timeout'')"
      and ds = "[(True, None)]"]
    first_resolution_wins [where inputs = "[Receives (USER_MESSAGE (ascii ''list files'') None),
        Engine (Requests_approval ''Bash'' ''{}'')]"
      and a = True and reason = None and s = "approval_timeout awaiting_session"]
  by (simp add: awaiting_session_def orchestrator_defs)

section \<open>The client\<close>

subsection \<open>Malformed frames\<close>

text \<open>
  C7, as stated: every frame whose payload is not a well-formed event is dropped and
  logged. A frame that parses to a message of an unknown type is dropped, but nothing is
  logged: the state after it is the state before it, \<open>console_errors\<close> included.
\<close>

theorem unknown_frame_not_logged_counterexample:
  "onmessage (\<lambda>p. if p = ''a frame of type bogus'' then Some (UNKNOWN ''bogus'') else None)
     (\<lambda>d x. []) ''a frame of type bogus'' initial_client
   \<noteq> initial_client\<lparr>console_errors := console_errors initial_client + 1\<rparr>"
  by (simp add: onmessage_def initial_client_def)

text \<open>
  C7, amended. A frame whose payload \<open>JSON.parse\<close> rejects is dropped and logged: one
  \<open>console.error\<close>, and nothing else changes, neither the connection nor the session or
  the transcript. A frame that parses to a message of an unknown type is dropped without
  a log: nothing changes at all.
\<close>

theorem malformed_frame_dropped:
  "(parse payload = None \<longrightarrow>
      onmessage parse fx payload st = st\<lparr>console_errors := console_errors st + 1\<rparr>
      \<and> wsRef (onmessage parse fx payload st) = wsRef st
      \<and> connectionStatus (onmessage parse fx payload st) = connectionStatus st)
   \<and> (parse payload = Some (UNKNOWN t) \<longrightarrow> onmessage parse fx payload st = st)"
  by (simp add: onmessage_def)

theorem malformed_frame_dropped_witness:
  "(\<lambda>p. None :: ws_message option) ''{oops'' = None
   \<and> onmessage (\<lambda>p. None) (\<lambda>d x. []) ''{oops'' initial_client
       = initial_client\<lparr>console_errors := 1\<rparr>
   \<and> onmessage (\<lambda>p. Some (UNKNOWN ''bogus'')) (\<lambda>d x. []) ''a frame of type bogus''
        initial_client
       = initial_client"
  using malformed_frame_dropped [of "\<lambda>p. None" "''{oops''" "\<lambda>d x. []" initial_client]
    malformed_frame_dropped [of "\<lambda>p. Some (UNKNOWN ''bogus'')" "''a frame of type bogus''"
      "\<lambda>d x. []" initial_client "''bogus''"]
  by (simp add: initial_client_def)

subsection \<open>Sending on a socket that is not open\<close>

text \<open>
  C8. If the socket is not in state \<open>OPEN\<close>, \<open>sendMessage\<close> and the four senders built on
  it (\<open>user_message\<close>, \<open>approval_response\<close>, \<open>interrupt\<close>, \<open>clear_session\<close>) return the state
  unchanged: nothing is sent and nothing is queued.
\<close>

theorem send_dropped_unless_open:
  "wsRef st \<noteq> Some OPEN \<Longrightarrow>
     sendMessage m st = st
     \<and> sendUserMessage c filePaths st = st
     \<and> sendApprovalResponse a reason st = st
     \<and> interrupt st = st
     \<and> clearSession st = st"
  by (simp add: sendMessage_def sendUserMessage_def sendApprovalResponse_def interrupt_def
      clearSession_def)

theorem send_dropped_unless_open_witness:
  "wsRef (initial_client\<lparr>wsRef := Some CONNECTING\<rparr>) \<noteq> Some OPEN
   \<and> sendUserMessage (ascii ''hi'') None (initial_client\<lparr>wsRef := Some CONNECTING\<rparr>)
       = initial_client\<lparr>wsRef := Some CONNECTING\<rparr>
   \<and> sendApprovalResponse True None (initial_client\<lparr>wsRef := Some CONNECTING\<rparr>)
       = initial_client\<lparr>wsRef := Some CONNECTING\<rparr>
   \<and> interrupt (initial_client\<lparr>wsRef := Some CONNECTING\<rparr>)
       = initial_client\<lparr>wsRef := Some CONNECTING\<rparr>
   \<and> clearSession (initial_client\<lparr>wsRef := Some CONNECTING\<rparr>)
       = initial_client\<lparr>wsRef := Some CONNECTING\<rparr>"
  using send_dropped_unless_open
    [of "initial_client\<lparr>wsRef := Some CONNECTING\<rparr>" INTERRUPT "ascii ''hi''" None True None]
  by (simp add: initial_client_def)

subsection \<open>Tool results\<close>

lemma only_result_of_refl: "only_result_of i r e ts ts"
  by (simp add: only_result_of_def list_all2_refl)

lemma only_result_in_refl: "only_result_in i r e ms ms"
  by (simp add: only_result_in_def list_all2_refl only_result_of_refl)

lemma update_found_None: "i \<notin> tc_id ` set ts \<Longrightarrow> update_found i r e ts = None"
  by (induction ts) auto

lemma update_found_Some: "update_found i r e ts = Some ts' \<Longrightarrow> only_result_of i r e ts ts'"
proof (induction ts arbitrary: ts')
  case Nil
  then show ?case by simp
next
  case (Cons t ts)
  show ?case
  proof (cases "tc_id t = i")
    case True
    with Cons.prems show ?thesis
      by (auto simp: only_result_of_def list_all2_refl)
  next
    case False
    with Cons.prems obtain us where "update_found i r e ts = Some us" "ts' = t # us"
      by auto
    with Cons.IH show ?thesis by (simp add: only_result_of_def)
  qed
qed

lemma restore_result_unmatched:
  "\<forall>m \<in> set ms. i \<notin> tc_id ` set (calls m) \<Longrightarrow> restore_result i r e ms = ms"
  by (induction ms) (auto simp: calls_def update_found_None split: option.splits)

lemma restore_result_only: "only_result_in i r e ms (restore_result i r e ms)"
proof (induction ms)
  case Nil
  then show ?case by (simp add: only_result_in_def)
next
  case (Cons m ms)
  then show ?case
    using update_found_Some [of i r e "calls m"]
    by (auto simp: only_result_in_def calls_def only_result_of_refl list_all2_refl
        split: option.splits)
qed

lemma only_result_in_rev: "only_result_in i r e ms ms' \<Longrightarrow> only_result_in i r e (rev ms) (rev ms')"
  by (simp add: only_result_in_def)

lemma live_map_only:
  "only_result_of i r e ts (map (\<lambda>tool. if tc_id tool = i then with_result r e tool else tool) ts)"
  by (induction ts) (auto simp: only_result_of_def)

lemma live_map_unmatched:
  "i \<notin> tc_id ` set ts \<Longrightarrow> map (\<lambda>tool. if tc_id tool = i then with_result r e tool else tool) ts = ts"
  by (induction ts) auto

text \<open>
  C9. A \<open>tool_result\<close> whose \<open>tool_use_id\<close> is the id of no tool call leaves the state of
  the live handler, and the restored messages of the history replay, unchanged. In any
  case the live handler leaves the messages alone, and in both handlers every tool call is
  left as it was unless it has that id and receives the result.
\<close>

theorem tool_result_frame:
  "(i \<notin> tc_id ` set (currentToolCalls st) \<longrightarrow> handleMessage fx (TOOL_RESULT i r e) st = st)
   \<and> ((\<forall>m \<in> set rs. i \<notin> tc_id ` set (calls m)) \<longrightarrow> history_step fx rs (TOOL_RESULT i r e) = rs)
   \<and> messages (handleMessage fx (TOOL_RESULT i r e) st) = messages st
   \<and> only_result_of i r e (currentToolCalls st)
        (currentToolCalls (handleMessage fx (TOOL_RESULT i r e) st))
   \<and> only_result_in i r e rs (history_step fx rs (TOOL_RESULT i r e))"
proof (intro conjI impI)
  assume "i \<notin> tc_id ` set (currentToolCalls st)"
  then show "handleMessage fx (TOOL_RESULT i r e) st = st"
    by (simp add: live_map_unmatched)
next
  assume "\<forall>m \<in> set rs. i \<notin> tc_id ` set (calls m)"
  then have "restore_result i r e (rev rs) = rev rs"
    by (intro restore_result_unmatched) simp
  then show "history_step fx rs (TOOL_RESULT i r e) = rs" by simp
next
  show "messages (handleMessage fx (TOOL_RESULT i r e) st) = messages st" by simp
next
  show "only_result_of i r e (currentToolCalls st)
        (currentToolCalls (handleMessage fx (TOOL_RESULT i r e) st))"
    by (simp add: live_map_only)
next
  have "only_result_in i r e (rev (rev rs)) (rev (restore_result i r e (rev rs)))"
    by (rule only_result_in_rev) (rule restore_result_only)
  then show "only_result_in i r e rs (history_step fx rs (TOOL_RESULT i r e))" by simp
qed

theorem tool_result_frame_witness:
  "''t2'' \<notin> tc_id ` set (currentToolCalls
       (initial_client\<lparr>currentToolCalls := [running_tool ''t1'' ''Bash'' ''{}'']\<rparr>))
   \<and> handleMessage (\<lambda>d x. []) (TOOL_RESULT ''t2'' ''out'' False)
        (initial_client\<lparr>currentToolCalls := [running_tool ''t1'' ''Bash'' ''{}'']\<rparr>)
       = initial_client\<lparr>currentToolCalls := [running_tool ''t1'' ''Bash'' ''{}'']\<rparr>
   \<and> history_step (\<lambda>d x. []) [tool_message [running_tool ''t1'' ''Bash'' ''{}'']]
        (TOOL_RESULT ''t2'' ''out'' False)
       = [tool_message [running_tool ''t1'' ''Bash'' ''{}'']]
   \<and> only_result_in ''t1'' ''out'' False
        [tool_message [running_tool ''t1'' ''Bash'' ''{}'', running_tool ''t3'' ''Read'' ''{}'']]
        [tool_message [with_result ''out'' False (running_tool ''t1'' ''Bash'' ''{}''),
                       running_tool ''t3'' ''Read'' ''{}'']]"
  using tool_result_frame [where i = "''t2''" and r = "''out''" and e = False
      and fx = "\<lambda>d x. []" and rs = "[tool_message [running_tool ''t1'' ''Bash'' ''{}'']]"
      and st = "initial_client\<lparr>currentToolCalls := [running_tool ''t1'' ''Bash'' ''{}'']\<rparr>"]
    tool_result_frame [where i = "''t1''" and r = "''out''" and e = False
      and fx = "\<lambda>d x. []" and st = initial_client
      and rs = "[tool_message [running_tool ''t1'' ''Bash'' ''{}'',
                               running_tool ''t3'' ''Read'' ''{}'']]"]
  by (simp add: initial_client_def running_tool_def tool_message_def calls_def)

subsection \<open>The completion message\<close>

lemma system_messages_flush:
  "filter (\<lambda>m. role m = R_system) (messages (flushToolCalls (flushAssistantMessage st)))
     = filter (\<lambda>m. role m = R_system) (messages st)"
  by (simp add: flushToolCalls_def flushAssistantMessage_def assistant_message_def
      tool_message_def)

lemma other_messages_flush:
  "role m = R_system \<Longrightarrow>
   filter (\<lambda>m. role m \<noteq> R_system)
       (messages (flushToolCalls (flushAssistantMessage (st\<lparr>messages := messages st @ [m]\<rparr>))))
     = filter (\<lambda>m. role m \<noteq> R_system) (messages (flushToolCalls (flushAssistantMessage st)))"
  by (simp add: flushToolCalls_def flushAssistantMessage_def assistant_message_def
      tool_message_def)

text \<open>
  C10. A \<open>result\<close> event whose cost is missing or zero adds no system message, in the live
  handler (which only flushes what it had buffered) and in the history replay. A cost
  that is a number other than zero adds exactly one system message, \<open>Completed. Cost: $\<close>
  followed by the cost printed by \<open>toFixed(6)\<close>: in the live handler it is the newest
  system message and the other messages are those of the flush; in the replay it is
  appended.
\<close>

theorem result_cost_message:
  "(c = None \<or> c = Some 0 \<longrightarrow>
      handleMessage fx (RESULT c) st = flushToolCalls (flushAssistantMessage st)
      \<and> filter (\<lambda>m. role m = R_system) (messages (handleMessage fx (RESULT c) st))
          = filter (\<lambda>m. role m = R_system) (messages st)
      \<and> history_step fx rs (RESULT c) = rs)
   \<and> (x \<noteq> 0 \<longrightarrow>
      filter (\<lambda>m. role m = R_system) (messages (handleMessage fx (RESULT (Some x)) st))
        = filter (\<lambda>m. role m = R_system) (messages st)
          @ [system_message (ascii ''Completed. Cost: $'' @ fx 6 x)]
      \<and> filter (\<lambda>m. role m \<noteq> R_system) (messages (handleMessage fx (RESULT (Some x)) st))
        = filter (\<lambda>m. role m \<noteq> R_system) (messages (flushToolCalls (flushAssistantMessage st)))
      \<and> history_step fx rs (RESULT (Some x))
        = rs @ [system_message (ascii ''Completed. Cost: $'' @ fx 6 x)])"
proof -
  have r: "role (system_message t) = R_system" for t
    by (simp add: system_message_def)
  show ?thesis
    using other_messages_flush [OF r, of st]
    by (auto simp: completed_text_def system_messages_flush r)
qed

theorem result_cost_message_witness:
  "handleMessage (\<lambda>d x. ascii ''0.012346'') (RESULT None) streaming_client
     = flushToolCalls (flushAssistantMessage streaming_client)
   \<and> messages (handleMessage (\<lambda>d x. ascii ''0.012346'') (RESULT None) streaming_client)
     = [assistant_message (ascii ''Done.'')]
   \<and> history_step (\<lambda>d x. ascii ''0.012346'') [] (RESULT (Some 0)) = []
   \<and> filter (\<lambda>m. role m = R_system)
        (messages (handleMessage (\<lambda>d x. ascii ''0.012346'') (RESULT (Some (1 / 81)))
           streaming_client))
     = [system_message (ascii ''Completed. Cost: $0.012346'')]
   \<and> filter (\<lambda>m. role m \<noteq> R_system)
        (messages (handleMessage (\<lambda>d x. ascii ''0.012346'') (RESULT (Some (1 / 81)))
           streaming_client))
     = [assistant_message (ascii ''Done.'')]
   \<and> history_step (\<lambda>d x. ascii ''0.012346'') [] (RESULT (Some (1 / 81)))
     = [system_message (ascii ''Completed. Cost: $0.012346'')]"
  using result_cost_message [where c = None and x = "1 / 81"
      and fx = "\<lambda>d x. ascii ''0.012346''" and st = streaming_client and rs = "[]"]
    result_cost_message [where c = "Some 0" and x = "1 / 81"
      and fx = "\<lambda>d x. ascii ''0.012346''" and st = streaming_client and rs = "[]"]
  by (simp add: streaming_client_def initial_client_def flushToolCalls_def
      flushAssistantMessage_def trim_def is_space_def ascii_def assistant_message_def
      system_message_def)

subsection \<open>History replay and the live handler\<close>

lemma trim_Nil: "trim [] = []"
  by (simp add: trim_def)

lemma calls_simps [simp]:
  "calls (assistant_message t) = []"
  "calls (tool_message tcs) = tcs"
  "calls (thinking_message t) = []"
  "calls (system_message t) = []"
  by (simp_all add: calls_def assistant_message_def tool_message_def thinking_message_def
      system_message_def)

lemma role_simps [simp]:
  "role (assistant_message t) = R_assistant"
  "role (tool_message tcs) = R_tool"
  "role (thinking_message t) = R_thinking"
  "role (system_message t) = R_system"
  by (simp_all add: assistant_message_def tool_message_def thinking_message_def
      system_message_def)

lemma sim_end: "sim seen w rs st \<Longrightarrow> w \<noteq> Streaming [] \<Longrightarrow> rs = displayed st"
  by (cases w) (auto simp: sim_def displayed_def)

lemma known_flushAssistantMessage: "known seen st \<Longrightarrow> known seen (flushAssistantMessage st)"
  by (auto simp: known_def flushAssistantMessage_def)

lemma known_flushToolCalls: "known seen st \<Longrightarrow> known seen (flushToolCalls st)"
  by (auto simp: known_def flushToolCalls_def)

lemma known_append:
  "known seen st \<Longrightarrow> calls m = [] \<Longrightarrow> known seen (st\<lparr>messages := messages st @ [m]\<rparr>)"
  by (auto simp: known_def)

lemma known_text: "known seen st \<Longrightarrow> known seen (handleMessage fx (ASSISTANT_TEXT t) st)"
  using known_flushToolCalls [of seen st] by (simp add: Let_def known_def)

lemma sim_tail_text:
  "sim_tail w rs st \<Longrightarrow> w \<noteq> Text_flushed \<Longrightarrow>
     sim_tail (Streaming (streamed w @ t)) (history_step fx rs (ASSISTANT_TEXT t))
       (handleMessage fx (ASSISTANT_TEXT t) st)"
  by (cases w) (auto simp: flushToolCalls_def Let_def assistant_message_def)

lemma sim_text:
  "sim seen w rs st \<Longrightarrow> w \<noteq> Text_flushed \<Longrightarrow>
     sim seen (Streaming (streamed w @ t)) (history_step fx rs (ASSISTANT_TEXT t))
       (useWebSocket_handleMessage fx (ASSISTANT_TEXT t) st)"
  using sim_tail_text [of w rs st t fx] known_text [of seen st fx t]
  by (simp add: sim_def del: handleMessage.simps history_step.simps)


lemma known_tool_use:
  "known seen st \<Longrightarrow> known (i # seen) (handleMessage fx (TOOL_USE i n inp) st)"
  using known_flushAssistantMessage [of seen st]
  by (auto simp: known_def Let_def running_tool_def)

lemma sim_tail_tool_use:
  "sim_tail w rs st \<Longrightarrow> w \<noteq> Calls_flushed \<Longrightarrow> flushable w \<Longrightarrow> i \<notin> set (called w) \<Longrightarrow>
     sim_tail (Calling (i # called w)) (history_step fx rs (TOOL_USE i n inp))
       (handleMessage fx (TOOL_USE i n inp) st)"
  by (cases w)
     (auto simp: flushAssistantMessage_def Let_def trim_Nil tool_message_def running_tool_def)

lemma sim_tool_use:
  "sim seen w rs st \<Longrightarrow> w \<noteq> Calls_flushed \<Longrightarrow> flushable w \<Longrightarrow> i \<notin> set (called w) \<Longrightarrow>
     sim (i # seen) (Calling (i # called w)) (history_step fx rs (TOOL_USE i n inp))
       (useWebSocket_handleMessage fx (TOOL_USE i n inp) st)"
  using sim_tail_tool_use [of w rs st i fx n inp] known_tool_use [of seen st i fx n inp]
  by (simp add: sim_def del: handleMessage.simps history_step.simps)

lemma sim_tail_append:
  assumes "sim_tail w rs st" and "\<not> buffered w"
    and "role m \<noteq> R_assistant" and "role m \<noteq> R_tool"
  shows "sim_tail Settled (rs @ [m])
           (flushToolCalls (flushAssistantMessage (st\<lparr>messages := messages st @ [m]\<rparr>)))"
  using assms
  by (cases w) (auto simp: flushAssistantMessage_def flushToolCalls_def trim_Nil)

lemma known_append_flushed:
  assumes "known seen st" and "calls m = []"
  shows "known seen (flushToolCalls (flushAssistantMessage (st\<lparr>messages := messages st @ [m]\<rparr>)))"
  by (intro known_flushToolCalls known_flushAssistantMessage known_append assms)

lemma sim_thinking:
  "sim seen w rs st \<Longrightarrow> \<not> buffered w \<Longrightarrow>
     sim seen Settled (history_step fx rs (THINKING t))
       (useWebSocket_handleMessage fx (THINKING t) st)"
  using sim_tail_append [of w rs st "thinking_message t"]
    known_append_flushed [of seen st "thinking_message t"]
  by (simp add: sim_def)

lemma sim_error:
  "sim seen w rs st \<Longrightarrow> \<not> buffered w \<Longrightarrow>
     sim seen Settled (history_step fx rs (ERROR m))
       (useWebSocket_handleMessage fx (ERROR m) st)"
  using sim_tail_append [of w rs st "system_message (ascii ''Error: '' @ m)"]
    known_append_flushed [of seen st "system_message (ascii ''Error: '' @ m)"]
  by (simp add: sim_def)

lemma sim_result:
  "sim seen w rs st \<Longrightarrow> \<not> buffered w \<Longrightarrow> truthy_cost c \<Longrightarrow>
     sim seen Settled (history_step fx rs (RESULT c))
       (useWebSocket_handleMessage fx (RESULT c) st)"
  using sim_tail_append [of w rs st "system_message (completed_text fx (the c))"]
    known_append_flushed [of seen st "system_message (completed_text fx (the c))"]
  by (simp add: sim_def)

lemma sim_tail_flush:
  "sim_tail w rs st \<Longrightarrow> flushable w \<Longrightarrow>
     sim_tail (flushed w) rs (flushToolCalls (flushAssistantMessage st))"
  by (cases w) (auto simp: flushAssistantMessage_def flushToolCalls_def trim_Nil)

lemma sim_tail_pendingApproval:
  "sim_tail w rs (st\<lparr>pendingApproval := p\<rparr>) = sim_tail w rs st"
  by (cases w) simp_all

lemma known_pendingApproval: "known seen (st\<lparr>pendingApproval := p\<rparr>) = known seen st"
  by (simp add: known_def)

lemma sim_result_without_cost:
  "sim seen w rs st \<Longrightarrow> flushable w \<Longrightarrow> \<not> truthy_cost c \<Longrightarrow>
     sim seen (flushed w) (history_step fx rs (RESULT c))
       (useWebSocket_handleMessage fx (RESULT c) st)"
  using sim_tail_flush [of w rs st]
    known_flushToolCalls [OF known_flushAssistantMessage, of seen st]
  by (simp add: sim_def)

lemma sim_approval_request:
  "sim seen w rs st \<Longrightarrow> flushable w \<Longrightarrow>
     sim seen (flushed w) (history_step fx rs (APPROVAL_REQUEST n inp))
       (useWebSocket_handleMessage fx (APPROVAL_REQUEST n inp) st)"
  using sim_tail_flush [of w rs st]
    known_flushToolCalls [OF known_flushAssistantMessage, of seen st]
  by (simp add: sim_def handleApprovalRequest_def sim_tail_pendingApproval
      known_pendingApproval)

lemma status_transcript:
  assumes "s \<noteq> ''session_cleared''"
  shows "messages (status_update s (store_session_id sid st)) = messages st"
    and "currentAssistantMessage (status_update s (store_session_id sid st))
           = currentAssistantMessage st"
    and "currentToolCalls (status_update s (store_session_id sid st)) = currentToolCalls st"
  using assms by (simp_all add: status_update_def store_session_id_def split: option.splits)

lemma session_cleared_transcript:
  "messages (status_update ''session_cleared'' (store_session_id sid st)) = []"
  "currentAssistantMessage (status_update ''session_cleared'' (store_session_id sid st)) = []"
  "currentToolCalls (status_update ''session_cleared'' (store_session_id sid st)) = []"
  by (simp_all add: status_update_def store_session_id_def handleSessionCleared_def
      split: option.splits)

lemma sim_tail_cong:
  "messages st' = messages st \<Longrightarrow> currentAssistantMessage st' = currentAssistantMessage st \<Longrightarrow>
   currentToolCalls st' = currentToolCalls st \<Longrightarrow> sim_tail w rs st' = sim_tail w rs st"
  by (cases w) simp_all

lemma sim_status:
  assumes "sim seen w rs st" and "s = ''session_cleared'' \<longrightarrow> w = Empty"
  shows "sim seen w (history_step fx rs (STATUS s sid))
           (useWebSocket_handleMessage fx (STATUS s sid) st)"
proof (cases "s = ''session_cleared''")
  case True
  with assms show ?thesis
    by (simp add: sim_def known_def session_cleared_transcript)
next
  case False
  with assms(1) show ?thesis
    using sim_tail_cong [of "status_update s (store_session_id sid st)" st w rs]
    by (simp add: sim_def known_def status_transcript)
qed

lemma update_found_distinct:
  "distinct (map tc_id ts) \<Longrightarrow> i \<in> tc_id ` set ts \<Longrightarrow>
     update_found i r e ts
       = Some (map (\<lambda>tool. if tc_id tool = i then with_result r e tool else tool) ts)"
proof (induction ts)
  case Nil
  then show ?case by simp
next
  case (Cons t ts)
  show ?case
  proof (cases "tc_id t = i")
    case True
    with Cons.prems have "i \<notin> tc_id ` set ts" by auto
    then have "map (\<lambda>tool. if tc_id tool = i then with_result r e tool else tool) ts = ts"
      by (rule live_map_unmatched)
    with True show ?thesis by simp
  next
    case False
    with Cons show ?thesis by auto
  qed
qed

lemma tc_id_with_result: "tc_id (with_result r e t) = tc_id t"
  by (simp add: with_result_def)

lemma live_map_ids:
  "map tc_id (map (\<lambda>tool. if tc_id tool = i then with_result r e tool else tool) ts)
     = map tc_id ts"
  by (induction ts) (simp_all add: tc_id_with_result)

lemma known_tool_result:
  assumes "known seen st"
  shows "known seen (handleMessage fx (TOOL_RESULT i r e) st)"
proof -
  let ?f = "\<lambda>tool. if tc_id tool = i then with_result r e tool else tool"
  have "\<forall>t \<in> set (map ?f (currentToolCalls st)). tc_id t \<in> set seen"
  proof
    fix t assume "t \<in> set (map ?f (currentToolCalls st))"
    then obtain u where "u \<in> set (currentToolCalls st)" and "t = ?f u" by auto
    with assms show "tc_id t \<in> set seen" by (auto simp: known_def tc_id_with_result)
  qed
  with assms show ?thesis by (simp add: known_def)
qed

lemma sim_tail_tool_result_open:
  assumes "sim_tail (Calling cur) rs st" and "i \<in> set cur"
  shows "sim_tail (Calling cur) (history_step fx rs (TOOL_RESULT i r e))
           (handleMessage fx (TOOL_RESULT i r e) st)"
proof -
  define ts where
    "ts = map (\<lambda>tool. if tc_id tool = i then with_result r e tool else tool)
            (currentToolCalls st)"
  from assms have mem: "i \<in> tc_id ` set (currentToolCalls st)"
    and d: "distinct (map tc_id (currentToolCalls st))"
    and ne: "currentToolCalls st \<noteq> []"
    and tx: "currentAssistantMessage st = []"
    and rs: "rs = messages st @ [tool_message (currentToolCalls st)]"
    and cur: "tc_id ` set (currentToolCalls st) = set cur"
    by simp_all
  have m: "map tc_id ts = map tc_id (currentToolCalls st)"
    unfolding ts_def by (rule live_map_ids)
  have im: "tc_id ` set ts = set cur"
    using arg_cong [OF m, of set] cur by (simp only: set_map)
  have dt: "distinct (map tc_id ts)"
    using d by (simp only: m)
  have nt: "ts \<noteq> []"
    using ne by (simp add: ts_def)
  have h: "history_step fx rs (TOOL_RESULT i r e) = messages st @ [tool_message ts]"
    using update_found_distinct [OF d mem, of r e]
    by (simp add: rs tool_message_def ts_def)
  have l: "handleMessage fx (TOOL_RESULT i r e) st = st\<lparr>currentToolCalls := ts\<rparr>"
    by (simp add: ts_def)
  show ?thesis
    using tx nt im dt by (simp only: h l) simp
qed

lemma sim_tail_tool_result_unknown:
  assumes "sim_tail w rs st" and "known seen st" and "i \<notin> set seen"
  shows "sim_tail w (history_step fx rs (TOOL_RESULT i r e))
           (handleMessage fx (TOOL_RESULT i r e) st)"
proof -
  from assms(2,3) have cur: "i \<notin> tc_id ` set (currentToolCalls st)"
    and old: "\<forall>m \<in> set (messages st). i \<notin> tc_id ` set (calls m)"
    by (auto simp: known_def)
  have "\<forall>m \<in> set (rev rs). i \<notin> tc_id ` set (calls m)"
    using assms(1) cur old by (cases w) auto
  then have "restore_result i r e (rev rs) = rev rs"
    by (rule restore_result_unmatched)
  then show ?thesis
    using assms(1) live_map_unmatched [OF cur, of r e] by simp
qed

lemma sim_tool_result:
  assumes "sim seen w rs st" and "i \<in> set (called w) \<or> i \<notin> set seen"
  shows "sim seen w (history_step fx rs (TOOL_RESULT i r e))
           (useWebSocket_handleMessage fx (TOOL_RESULT i r e) st)"
proof -
  from assms(1) have t: "sim_tail w rs st" and k: "known seen st"
    by (simp_all add: sim_def)
  have "sim_tail w (history_step fx rs (TOOL_RESULT i r e))
          (handleMessage fx (TOOL_RESULT i r e) st)"
  proof (cases "i \<in> set (called w)")
    case True
    then obtain cur where w: "w = Calling cur" and "i \<in> set cur"
      by (cases w) auto
    with t show ?thesis
      using sim_tail_tool_result_open [of cur rs st i fx r e] by simp
  next
    case False
    with assms(2) have "i \<notin> set seen" by simp
    with t k show ?thesis by (rule sim_tail_tool_result_unknown)
  qed
  with known_tool_result [OF k, of fx i r e] show ?thesis
    by (simp add: sim_def del: handleMessage.simps history_step.simps)
qed

lemma live_Cons: "live fx (ev # es) st = live fx es (useWebSocket_handleMessage fx ev st)"
  by (simp add: live_def)

lemma replay_simulation:
  "sim seen w rs st \<Longrightarrow> replayable seen w es \<Longrightarrow>
     foldl (history_step fx) rs es = displayed (live fx es st)"
proof (induction es arbitrary: rs st seen w)
  case Nil
  then show ?case using sim_end [of seen w rs st] by (simp add: live_def)
next
  case (Cons ev es)
  note sm = Cons.prems(1) and rp = Cons.prems(2)
  have ignored: "foldl (history_step fx) rs (ev # es) = displayed (live fx (ev # es) st)"
    if "history_step fx rs ev = rs" and "useWebSocket_handleMessage fx ev st = st"
      and "replayable seen w es"
    using Cons.IH [OF sm that(3)] that(1,2) by (simp add: live_Cons)
  show ?case
  proof (cases ev)
    case (USER_MESSAGE c fs)
    with rp show ?thesis by simp
  next
    case (APPROVAL_RESPONSE a reason)
    with rp show ?thesis by (intro ignored) simp_all
  next
    case INTERRUPT
    with rp show ?thesis by (intro ignored) simp_all
  next
    case CLEAR_SESSION
    with rp show ?thesis by (intro ignored) simp_all
  next
    case (ASSISTANT_TEXT t)
    with rp have c: "w \<noteq> Text_flushed"
      and rest: "replayable seen (Streaming (streamed w @ t)) es"
      by simp_all
    show ?thesis
      using Cons.IH [OF sim_text [OF sm c] rest]
      by (simp only: ASSISTANT_TEXT live_Cons foldl_Cons)
  next
    case (THINKING t)
    with rp have c: "\<not> buffered w" and rest: "replayable seen Settled es" by simp_all
    show ?thesis
      using Cons.IH [OF sim_thinking [OF sm c] rest]
      by (simp only: THINKING live_Cons foldl_Cons)
  next
    case (TOOL_USE i n inp)
    with rp have c: "w \<noteq> Calls_flushed" "flushable w" "i \<notin> set (called w)"
      and rest: "replayable (i # seen) (Calling (i # called w)) es"
      by simp_all
    show ?thesis
      using Cons.IH [OF sim_tool_use [OF sm c] rest]
      by (simp only: TOOL_USE live_Cons foldl_Cons)
  next
    case (TOOL_RESULT i r e)
    with rp have c: "i \<in> set (called w) \<or> i \<notin> set seen" and rest: "replayable seen w es"
      by simp_all
    show ?thesis
      using Cons.IH [OF sim_tool_result [OF sm c] rest]
      by (simp only: TOOL_RESULT live_Cons foldl_Cons)
  next
    case (APPROVAL_REQUEST n inp)
    with rp have c: "flushable w" and rest: "replayable seen (flushed w) es" by simp_all
    show ?thesis
      using Cons.IH [OF sim_approval_request [OF sm c] rest]
      by (simp only: APPROVAL_REQUEST live_Cons foldl_Cons)
  next
    case (RESULT c)
    show ?thesis
    proof (cases "truthy_cost c")
      case True
      with rp RESULT have b: "\<not> buffered w" and rest: "replayable seen Settled es"
        by simp_all
      show ?thesis
        using Cons.IH [OF sim_result [OF sm b True] rest]
        by (simp only: RESULT live_Cons foldl_Cons)
    next
      case False
      with rp RESULT have f: "flushable w" and rest: "replayable seen (flushed w) es"
        by simp_all
      show ?thesis
        using Cons.IH [OF sim_result_without_cost [OF sm f False] rest]
        by (simp only: RESULT live_Cons foldl_Cons)
    qed
  next
    case (ERROR m)
    with rp have c: "\<not> buffered w" and rest: "replayable seen Settled es" by simp_all
    show ?thesis
      using Cons.IH [OF sim_error [OF sm c] rest]
      by (simp only: ERROR live_Cons foldl_Cons)
  next
    case (STATUS s sid)
    with rp have c: "s = ''session_cleared'' \<longrightarrow> w = Empty"
      and rest: "replayable seen w es"
      by simp_all
    show ?thesis
      using Cons.IH [OF sim_status [OF sm c] rest]
      by (simp only: STATUS live_Cons foldl_Cons)
  next
    case (HISTORY ms)
    with rp show ?thesis by simp
  next
    case (UNKNOWN t)
    with rp show ?thesis by (intro ignored) simp_all
  qed
qed

lemma sim_initial: "sim [] Empty [] initial_client"
  by (simp add: sim_def known_def initial_client_def)

text \<open>
  C6, as stated: for every list of events, the history replay restores the same messages
  as the live handling of the same events. It does not. The live handler drops an
  assistant text that is blank when it is flushed, the replay keeps it; the replay shows a
  user message, for which the live handlers have no case; and a result without cost
  flushes the live buffers, so that the next text starts a new message, which the replay
  merges into the previous one.
\<close>

theorem replay_differs_from_live_counterexample:
  "restored (\<lambda>d x. []) [ASSISTANT_TEXT (ascii '' ''), THINKING (ascii ''plan'')]
     \<noteq> displayed (live (\<lambda>d x. []) [ASSISTANT_TEXT (ascii '' ''), THINKING (ascii ''plan'')]
          initial_client)
   \<and> restored (\<lambda>d x. []) [USER_MESSAGE (ascii ''hi'') None]
     \<noteq> displayed (live (\<lambda>d x. []) [USER_MESSAGE (ascii ''hi'') None] initial_client)
   \<and> restored (\<lambda>d x. [])
       [ASSISTANT_TEXT (ascii ''a''), RESULT (Some 0), ASSISTANT_TEXT (ascii ''b'')]
     \<noteq> displayed (live (\<lambda>d x. [])
       [ASSISTANT_TEXT (ascii ''a''), RESULT (Some 0), ASSISTANT_TEXT (ascii ''b'')]
          initial_client)"
  by (simp add: client_defs)

text \<open>
  The two transcripts in each of these, and in three more differences: a tool result that
  arrives after an approval request has flushed its tool call is lost by the live
  handler; a thinking message that follows streaming text is displayed before that text;
  and a \<open>status=session_cleared\<close> empties the live transcript only.
\<close>

lemma blank_text_differs:
  "restored (\<lambda>d x. []) [ASSISTANT_TEXT (ascii '' ''), THINKING (ascii ''plan'')]
     = [assistant_message (ascii '' ''), thinking_message (ascii ''plan'')]
   \<and> displayed (live (\<lambda>d x. []) [ASSISTANT_TEXT (ascii '' ''), THINKING (ascii ''plan'')]
        initial_client)
     = [thinking_message (ascii ''plan'')]"
  by (simp add: client_defs)

lemma user_message_differs:
  "restored (\<lambda>d x. []) [USER_MESSAGE (ascii ''hi'') None] = [user_message (ascii ''hi'')]
   \<and> displayed (live (\<lambda>d x. []) [USER_MESSAGE (ascii ''hi'') None] initial_client) = []"
  by (simp add: client_defs)

lemma result_without_cost_differs:
  "restored (\<lambda>d x. [])
     [ASSISTANT_TEXT (ascii ''a''), RESULT (Some 0), ASSISTANT_TEXT (ascii ''b'')]
   = [assistant_message (ascii ''ab'')]
   \<and> displayed (live (\<lambda>d x. [])
       [ASSISTANT_TEXT (ascii ''a''), RESULT (Some 0), ASSISTANT_TEXT (ascii ''b'')]
       initial_client)
   = [assistant_message (ascii ''a''), assistant_message (ascii ''b'')]"
  by (simp add: client_defs)

lemma tool_result_after_approval_request_differs:
  "restored (\<lambda>d x. [])
     [TOOL_USE ''t1'' ''Bash'' ''ls'', APPROVAL_REQUEST ''Bash'' ''ls'',
      TOOL_RESULT ''t1'' ''a.txt'' False]
   = [tool_message [with_result ''a.txt'' False (running_tool ''t1'' ''Bash'' ''ls'')]]
   \<and> displayed (live (\<lambda>d x. [])
     [TOOL_USE ''t1'' ''Bash'' ''ls'', APPROVAL_REQUEST ''Bash'' ''ls'',
      TOOL_RESULT ''t1'' ''a.txt'' False]
     initial_client)
   = [tool_message [running_tool ''t1'' ''Bash'' ''ls'']]"
  by (simp add: client_defs)

lemma thinking_after_text_differs:
  "restored (\<lambda>d x. []) [ASSISTANT_TEXT (ascii ''a''), THINKING (ascii ''b'')]
   = [assistant_message (ascii ''a''), thinking_message (ascii ''b'')]
   \<and> displayed (live (\<lambda>d x. []) [ASSISTANT_TEXT (ascii ''a''), THINKING (ascii ''b'')]
       initial_client)
   = [thinking_message (ascii ''b''), assistant_message (ascii ''a'')]"
  by (simp add: client_defs)

lemma session_cleared_differs:
  "restored (\<lambda>d x. []) [THINKING (ascii ''a''), STATUS ''session_cleared'' None]
   = [thinking_message (ascii ''a'')]
   \<and> displayed (live (\<lambda>d x. []) [THINKING (ascii ''a''), STATUS ''session_cleared'' None]
       initial_client)
   = []"
  by (simp add: client_defs)

text \<open>
  No list with a user message (and without a nested history) is replayed as it was
  handled live: the replay shows the user message, the live handlers never add one.
\<close>

lemma role_restore_result: "map role (restore_result i r e ms) = map role ms"
  by (induction ms) (auto split: option.splits)

lemma user_in_roles: "(\<exists>m \<in> set ms. role m = R_user) \<longleftrightarrow> R_user \<in> set (map role ms)"
  by force

lemma history_step_keeps_user:
  assumes "\<exists>m \<in> set rs. role m = R_user"
  shows "\<exists>m \<in> set (history_step fx rs ev). role m = R_user"
proof (cases ev)
  case (ASSISTANT_TEXT t)
  from assms show ?thesis
    unfolding ASSISTANT_TEXT by (cases rs rule: rev_cases) auto
next
  case (TOOL_USE i n inp)
  from assms show ?thesis
    unfolding TOOL_USE by (cases rs rule: rev_cases) auto
next
  case (TOOL_RESULT i r e)
  have "map role (history_step fx rs ev) = map role rs"
    unfolding TOOL_RESULT by (simp add: role_restore_result rev_map [symmetric])
  with assms show ?thesis
    unfolding user_in_roles by simp
qed (use assms in auto)

lemma replay_keeps_user:
  "\<exists>m \<in> set rs. role m = R_user \<Longrightarrow> \<exists>m \<in> set (foldl (history_step fx) rs es). role m = R_user"
  by (induction es arbitrary: rs) (simp_all add: history_step_keeps_user del: history_step.simps)

lemma replay_has_user:
  "USER_MESSAGE c fs \<in> set es \<Longrightarrow> \<exists>m \<in> set (foldl (history_step fx) rs es). role m = R_user"
proof (induction es arbitrary: rs)
  case Nil
  then show ?case by simp
next
  case (Cons ev es)
  show ?case
  proof (cases "ev = USER_MESSAGE c fs")
    case True
    have "\<exists>m \<in> set (history_step fx rs ev). role m = R_user"
      unfolding True by (simp add: user_message_def)
    then show ?thesis
      using replay_keeps_user [of "history_step fx rs ev" fx es] by simp
  next
    case False
    with Cons.prems have "USER_MESSAGE c fs \<in> set es" by simp
    then show ?thesis using Cons.IH by simp
  qed
qed

lemma live_step_no_user:
  "\<forall>m \<in> set (messages st). role m \<noteq> R_user \<Longrightarrow> \<not> is_history ev \<Longrightarrow>
     \<forall>m \<in> set (messages (useWebSocket_handleMessage fx ev st)). role m \<noteq> R_user"
  by (cases ev)
     (auto simp: flushToolCalls_def flushAssistantMessage_def handleApprovalRequest_def
        handleSessionCleared_def status_update_def store_session_id_def Let_def
        split: option.splits if_splits)

lemma live_no_user:
  "\<forall>m \<in> set (messages st). role m \<noteq> R_user \<Longrightarrow> \<forall>ev \<in> set es. \<not> is_history ev \<Longrightarrow>
     \<forall>m \<in> set (displayed (live fx es st)). role m \<noteq> R_user"
proof (induction es arbitrary: st)
  case Nil
  then show ?case by (auto simp: live_def displayed_def)
next
  case (Cons ev es)
  from Cons.prems have "\<forall>m \<in> set (messages (useWebSocket_handleMessage fx ev st)). role m \<noteq> R_user"
    by (intro live_step_no_user) simp_all
  with Cons.prems(2) show ?case
    using Cons.IH [of "useWebSocket_handleMessage fx ev st"] by (simp add: live_Cons)
qed

lemma user_message_always_differs:
  assumes "USER_MESSAGE c fs \<in> set es" and "\<forall>ev \<in> set es. \<not> is_history ev"
  shows "restored fx es \<noteq> displayed (live fx es initial_client)"
proof
  assume eq: "restored fx es = displayed (live fx es initial_client)"
  have "\<exists>m \<in> set (restored fx es). role m = R_user"
    unfolding restored_def using assms(1) by (rule replay_has_user)
  moreover have "\<forall>m \<in> set (displayed (live fx es initial_client)). role m \<noteq> R_user"
    using assms(2) by (intro live_no_user) (simp_all add: initial_client_def)
  ultimately show False using eq by auto
qed

text \<open>
  C6, amended. For every list of events that is \<open>replayable\<close> from the empty transcript,
  the history replay restores exactly the messages that the live handling of the same
  events, one at a time, displays: the committed messages, then the tool calls in
  progress, then the streaming assistant text; with the same roles, contents, merged
  consecutive assistant text and tool call statuses and results.
\<close>

theorem replay_agrees_with_live:
  "replayable [] Empty events \<Longrightarrow>
     restored fx events = displayed (live fx events initial_client)"
  unfolding restored_def by (rule replay_simulation [OF sim_initial])

theorem replay_agrees_with_live_witness:
  "replayable [] Empty sample_turn
   \<and> restored (\<lambda>d x. []) sample_turn
       = displayed (live (\<lambda>d x. []) sample_turn initial_client)
   \<and> restored (\<lambda>d x. []) sample_turn
       = [thinking_message (ascii ''hm''),
          assistant_message (ascii ''Let me look.''),
          tool_message [with_result ''a.txt'' False (running_tool ''t1'' ''Bash'' ''ls''),
                        running_tool ''t2'' ''Read'' ''a.txt''],
          assistant_message (ascii ''Done.'')]"
proof -
  have r: "replayable [] Empty sample_turn"
    by (simp add: sample_turn_def trim_def is_space_def ascii_def)
  have v: "restored (\<lambda>d x. []) sample_turn
       = [thinking_message (ascii ''hm''),
          assistant_message (ascii ''Let me look.''),
          tool_message [with_result ''a.txt'' False (running_tool ''t1'' ''Bash'' ''ls''),
                        running_tool ''t2'' ''Read'' ''a.txt''],
          assistant_message (ascii ''Done.'')]"
    by (simp add: sample_turn_def client_defs)
  from r v replay_agrees_with_live [OF r, of "\<lambda>d x. []"] show ?thesis
    by simp
qed

end
